theory Spec2Isabelle
  imports Main "HOL-Library.AList" "HOL-Library.Sublist"
begin

section \<open>The WebSocket connection manager of app/services/websocket\_manager.py\<close>

text \<open>
  The class \<^verbatim>\<open>WebSocketManager\<close> keeps four dictionaries and a statistics record, and talks
  to the outside world through three calls on a socket (\<^verbatim>\<open>accept\<close>, \<^verbatim>\<open>send_text\<close>,
  \<^verbatim>\<open>close\<close>), the wall clock (\<^verbatim>\<open>datetime.now()\<close>) and \<^verbatim>\<open>uuid.uuid4()\<close>.
  The embedding threads one record through every method: the manager's fields as the class
  has them, plus the part of the world the methods read and write.

  \<^item> A user id is a Python \<^verbatim>\<open>int\<close>; a socket is an opaque handle, compared by identity.
  \<^item> A time is a count of microseconds (the resolution of \<^verbatim>\<open>datetime\<close>); every
    \<^verbatim>\<open>datetime.now()\<close> of one method call reads the same clock value, and the clock moves
    between calls.
  \<^item> \<^verbatim>\<open>accept\<close> and \<^verbatim>\<open>send_text\<close> succeed or raise as the transport decides: the
    outcomes of the coming calls are a list held in the state, consumed one per call; when
    the list is exhausted a call succeeds.
  \<^item> A message is a Python \<^verbatim>\<open>dict\<close> with string keys: an association list in insertion
    order. Assigning a key replaces the value in place or appends the key, as
    \<^const>\<open>AList.update\<close> does. Its values are JSON values, so \<^verbatim>\<open>json.dumps\<close> succeeds on
    every message; the log of deliveries keeps the message whose text was sent. A
    dictionary is a value: the offline queue holds what the caller's dictionary
    contained when it was queued.
  \<^item> A socket object is true in a condition (\<^verbatim>\<open>if websocket:\<close>): the optional socket
    argument of \<^verbatim>\<open>disconnect\<close> is an \<open>option\<close>, and \<open>Some\<close> takes the first branch.
  \<^item> A Python \<^verbatim>\<open>set\<close> does not fix the order in which it is iterated; the model iterates
    a set in the order in which its elements were added.
  \<^item> The methods are coroutines. Each is modelled as running from its call to its return
    without another call on the manager in between.
\<close>

subsection \<open>Data\<close>

type_synonym user_id = int
type_synonym websocket = nat
type_synonym time = int

datatype json =
    JNone
  | JBool bool
  | JInt int
  | JStr string
  | JTime time   \<comment> \<open>the string \<^verbatim>\<open>datetime.isoformat()\<close> of a time\<close>
  | JUuid nat    \<comment> \<open>the string \<^verbatim>\<open>str(uuid.uuid4())\<close> of the n-th identifier drawn\<close>
  | JList "json list"
  | JDict "(string \<times> json) list"

type_synonym message = "(string \<times> json) list"

datatype outcome = Succeeds | WebSocketDisconnect | OtherException

record metadata =
  meta_user_id :: user_id
  meta_connected_at :: time
  meta_session_id :: nat
  meta_session_data :: message

record session =
  sess_user_id :: user_id
  sess_last_activity :: time
  sess_active_connections :: nat
  sess_session_data :: message
  sess_status :: "json option"

record stats =
  total_connections :: nat
  stat_active_connections :: nat
  messages_sent :: nat
  messages_received :: nat

text \<open>
  \<^verbatim>\<open>active_connections\<close> is a \<^verbatim>\<open>defaultdict(set)\<close> that \<^verbatim>\<open>broadcast_to_all\<close> iterates,
  and \<^verbatim>\<open>connection_metadata\<close> a dict that the sweep iterates: both are association lists
  in insertion order. A set of sockets is a list without repetitions. \<^verbatim>\<open>user_sessions\<close>
  and \<^verbatim>\<open>offline_messages\<close> are only looked up by key: they are maps.
  \<^verbatim>\<open>delivered\<close> logs every \<^verbatim>\<open>send_text\<close> that succeeded, \<^verbatim>\<open>closed\<close> every
  \<^verbatim>\<open>close\<close> attempted.
\<close>

record manager =
  active_connections :: "(user_id \<times> websocket list) list"
  connection_metadata :: "(websocket \<times> metadata) list"
  user_sessions :: "user_id \<rightharpoonup> session"
  offline_messages :: "user_id \<rightharpoonup> message list"
  connection_stats :: stats
  clock :: time
  uuid_source :: nat
  transport :: "outcome list"
  delivered :: "(websocket \<times> message) list"
  closed :: "websocket list"

definition init :: manager where
  "init = \<lparr> active_connections = [], connection_metadata = [],
            user_sessions = Map.empty, offline_messages = Map.empty,
            connection_stats = \<lparr> total_connections = 0, stat_active_connections = 0,
                                 messages_sent = 0, messages_received = 0 \<rparr>,
            clock = 0, uuid_source = 0, transport = [], delivered = [], closed = [] \<rparr>"

subsection \<open>Dictionary helpers\<close>

text \<open>\<^verbatim>\<open>d[k]\<close> on a \<^verbatim>\<open>defaultdict(set)\<close>: a missing key is inserted with the empty set.\<close>

definition touch :: "user_id \<Rightarrow> (user_id \<times> websocket list) list \<Rightarrow> (user_id \<times> websocket list) list" where
  "touch uid ac = (if uid \<in> fst ` set ac then ac else ac @ [(uid, [])])"

text \<open>\<^verbatim>\<open>d.get(k, set())\<close>: the set stored under the key, the empty set when there is none.\<close>

definition conns_of :: "user_id \<Rightarrow> (user_id \<times> websocket list) list \<Rightarrow> websocket list" where
  "conns_of uid ac = (case map_of ac uid of None \<Rightarrow> [] | Some cs \<Rightarrow> cs)"

text \<open>\<^verbatim>\<open>sum(len(connections) for connections in self.active_connections.values())\<close>\<close>

definition count_connections :: "(user_id \<times> websocket list) list \<Rightarrow> nat" where
  "count_connections ac = sum_list (map (\<lambda>p. length (snd p)) ac)"

text \<open>The queue of a user, empty when the user has no entry.\<close>

definition queued :: "user_id \<Rightarrow> manager \<Rightarrow> message list" where
  "queued uid s = (case offline_messages s uid of None \<Rightarrow> [] | Some q \<Rightarrow> q)"

text \<open>\<^verbatim>\<open>session_data or {}\<close>\<close>

definition or_empty :: "message option \<Rightarrow> message" where
  "or_empty sd = (case sd of None \<Rightarrow> [] | Some d \<Rightarrow> d)"

text \<open>Python's truth value of an optional \<^verbatim>\<open>int\<close>: \<^verbatim>\<open>None\<close> and \<^verbatim>\<open>0\<close> are false.\<close>

definition truthy :: "user_id option \<Rightarrow> bool" where
  "truthy x = (case x of None \<Rightarrow> False | Some n \<Rightarrow> n \<noteq> 0)"

text \<open>The transport's answer to the next \<^verbatim>\<open>accept\<close> or \<^verbatim>\<open>send_text\<close>.\<close>

definition next_outcome :: "manager \<Rightarrow> outcome \<times> manager" where
  "next_outcome s =
     (case transport s of [] \<Rightarrow> (Succeeds, s) | x # xs \<Rightarrow> (x, s\<lparr>transport := xs\<rparr>))"

subsection \<open>The methods\<close>

text \<open>
  \<^verbatim>\<open>disconnect(user_id, websocket=None)\<close>. Nothing in its body can raise past the inner
  handlers, so the outer \<^verbatim>\<open>except\<close> is never entered; a failing \<^verbatim>\<open>close\<close> is swallowed.
\<close>

definition disconnect :: "user_id \<Rightarrow> websocket option \<Rightarrow> manager \<Rightarrow> manager" where
  "disconnect uid wso s =
    (let ac0 = touch uid (active_connections s);
         cs = conns_of uid ac0;
         s1 = (case wso of
                 Some ws \<Rightarrow>
                   s\<lparr> active_connections :=
                        (if ws \<in> set cs then AList.update uid (removeAll ws cs) ac0 else ac0),
                      connection_metadata :=
                        (if ws \<in> fst ` set (connection_metadata s)
                         then AList.delete ws (connection_metadata s)
                         else connection_metadata s),
                      closed := closed s @ [ws] \<rparr>
               | None \<Rightarrow>
                   s\<lparr> active_connections := AList.update uid [] ac0,
                      connection_metadata :=
                        fold (\<lambda>conn md. if conn \<in> fst ` set md then AList.delete conn md else md)
                             cs (connection_metadata s),
                      closed := closed s @ cs \<rparr>);
         ac1 = touch uid (active_connections s1);
         ac2 = (if conns_of uid ac1 = [] then AList.delete uid ac1 else ac1);
         us = (case user_sessions s1 uid of
                 None \<Rightarrow> user_sessions s1
               | Some se \<Rightarrow>
                   (let us1 = (user_sessions s1)
                                (uid \<mapsto> se\<lparr>sess_active_connections := length (conns_of uid ac2)\<rparr>)
                    in if conns_of uid ac2 = [] then us1(uid := None) else us1))
     in s1\<lparr> active_connections := ac2,
            user_sessions := us,
            connection_stats :=
              (connection_stats s1)\<lparr>stat_active_connections := count_connections ac2\<rparr> \<rparr>)"

text \<open>
  \<^verbatim>\<open>_send_to_connection(websocket, message)\<close>: serialises and sends; an exception of
  \<^verbatim>\<open>send_text\<close> is logged and raised again, so the result is the outcome.
\<close>

definition send_to_connection :: "websocket \<Rightarrow> message \<Rightarrow> manager \<Rightarrow> outcome \<times> manager" where
  "send_to_connection ws msg s =
     (case next_outcome s of
        (Succeeds, s1) \<Rightarrow> (Succeeds, s1\<lparr>delivered := delivered s1 @ [(ws, msg)]\<rparr>)
      | (e, s1) \<Rightarrow> (e, s1))"

text \<open>\<^verbatim>\<open>_queue_offline_message(user_id, message)\<close>, with \<^verbatim>\<open>max_queue_size = 100\<close>.\<close>

definition max_queue_size :: nat where
  "max_queue_size = 100"

definition queue_offline_message :: "user_id \<Rightarrow> message \<Rightarrow> manager \<Rightarrow> manager" where
  "queue_offline_message uid msg s =
     (let q = queued uid s @ [msg];
          q' = (if length q > max_queue_size then drop (length q - max_queue_size) q else q)
      in s\<lparr>offline_messages := (offline_messages s)(uid \<mapsto> q')\<rparr>)"

text \<open>\<^verbatim>\<open>self.connection_stats['messages_sent'] += 1\<close>\<close>

definition bump_sent :: "manager \<Rightarrow> manager" where
  "bump_sent s = s\<lparr>connection_stats :=
                   (connection_stats s)\<lparr>messages_sent := messages_sent (connection_stats s) + 1\<rparr>\<rparr>"

text \<open>
  \<^verbatim>\<open>send_to_user(user_id, message)\<close>. The caller's dictionary is changed in place, so the
  result is the returned flag, the caller's dictionary after the call, and the state.
  The loop runs over a copy of the user's set; the flag records a successful send.
\<close>

fun send_loop :: "user_id \<Rightarrow> message \<Rightarrow> websocket list \<Rightarrow> bool \<Rightarrow> manager \<Rightarrow> bool \<times> manager" where
  "send_loop uid msg [] sent s = (sent, s)"
| "send_loop uid msg (ws # rest) sent s =
     (case send_to_connection ws msg s of
        (Succeeds, s1) \<Rightarrow> send_loop uid msg rest True s1
      | (WebSocketDisconnect, s1) \<Rightarrow> send_loop uid msg rest sent (disconnect uid (Some ws) s1)
      | (OtherException, s1) \<Rightarrow> send_loop uid msg rest sent (disconnect uid (Some ws) s1))"

definition stamp :: "time \<Rightarrow> message \<Rightarrow> message" where
  "stamp t msg = AList.update ''timestamp'' (JTime t) msg"

definition send_to_user :: "user_id \<Rightarrow> message \<Rightarrow> manager \<Rightarrow> bool \<times> message \<times> manager" where
  "send_to_user uid msg s =
     (let msg' = stamp (clock s) msg in
      if uid \<in> fst ` set (active_connections s) then
        (case send_loop uid msg' (conns_of uid (active_connections s)) False s of
           (True, s1) \<Rightarrow> (True, msg', bump_sent s1)
         | (False, s1) \<Rightarrow> (False, msg', queue_offline_message uid msg' s1))
      else (False, msg', queue_offline_message uid msg' s))"

text \<open>
  \<^verbatim>\<open>_send_offline_messages(user_id)\<close>: replays a copy of the queue through
  \<^verbatim>\<open>send_to_user\<close>, each message wrapped, then clears the live queue.
\<close>

definition offline_wrapper :: "message \<Rightarrow> message" where
  "offline_wrapper m = [(''type'', JStr ''offline_message''), (''data'', JDict m)]"

definition send_offline_messages :: "user_id \<Rightarrow> manager \<Rightarrow> manager" where
  "send_offline_messages uid s =
     (case offline_messages s uid of
        None \<Rightarrow> s
      | Some messages \<Rightarrow>
          (let s1 = fold (\<lambda>m st. snd (snd (send_to_user uid (offline_wrapper m) st))) messages s
           in s1\<lparr>offline_messages := (offline_messages s1)(uid \<mapsto> [])\<rparr>))"

text \<open>
  \<^verbatim>\<open>connect(websocket, user_id, session_data=None)\<close>. Any exception in the body (a
  failed handshake, a failed confirmation, the \<^verbatim>\<open>KeyError\<close> of a missing metadata
  entry) is caught by the handler, which disconnects the socket.
\<close>

definition connection_confirmed :: "user_id \<Rightarrow> nat \<Rightarrow> time \<Rightarrow> message" where
  "connection_confirmed uid sid t =
     [(''type'', JStr ''connection_confirmed''),
      (''data'', JDict [(''user_id'', JInt uid), (''session_id'', JUuid sid), (''timestamp'', JTime t)])]"

definition set_add :: "websocket \<Rightarrow> websocket list \<Rightarrow> websocket list" where
  "set_add ws cs = (if ws \<in> set cs then cs else cs @ [ws])"

text \<open>
  The body of \<^verbatim>\<open>connect\<close> between the handshake and the confirmation: the socket
  joins the user's set, its metadata and the user's session are written (the session is
  replaced as a whole), and the counters are updated.
\<close>

definition register :: "websocket \<Rightarrow> user_id \<Rightarrow> message option \<Rightarrow> manager \<Rightarrow> manager" where
  "register ws uid session_data s =
     (let ac0 = touch uid (active_connections s);
          ac1 = AList.update uid (set_add ws (conns_of uid ac0)) ac0
      in s\<lparr> active_connections := ac1,
             connection_metadata :=
               AList.update ws
                 \<lparr> meta_user_id = uid, meta_connected_at = clock s,
                   meta_session_id = uuid_source s, meta_session_data = or_empty session_data \<rparr>
                 (connection_metadata s),
             user_sessions :=
               (user_sessions s)
                 (uid \<mapsto> \<lparr> sess_user_id = uid, sess_last_activity = clock s,
                           sess_active_connections = length (conns_of uid ac1),
                           sess_session_data = or_empty session_data,
                           sess_status = None \<rparr>),
             connection_stats :=
               (connection_stats s)
                 \<lparr> total_connections := total_connections (connection_stats s) + 1,
                   stat_active_connections := count_connections ac1 \<rparr>,
             uuid_source := uuid_source s + 1 \<rparr>)"

definition connect :: "websocket \<Rightarrow> user_id \<Rightarrow> message option \<Rightarrow> manager \<Rightarrow> manager" where
  "connect ws uid session_data s =
     (case next_outcome s of
        (Succeeds, s0) \<Rightarrow>
          (let s1 = register ws uid session_data s0
           in case map_of (connection_metadata s1) ws of
                None \<Rightarrow> disconnect uid (Some ws) s1
              | Some md \<Rightarrow>
                  (case send_to_connection ws
                          (connection_confirmed uid (meta_session_id md) (clock s1)) s1 of
                     (Succeeds, s2) \<Rightarrow> send_offline_messages uid s2
                   | (WebSocketDisconnect, s2) \<Rightarrow> disconnect uid (Some ws) s2
                   | (OtherException, s2) \<Rightarrow> disconnect uid (Some ws) s2))
      | (WebSocketDisconnect, s0) \<Rightarrow> disconnect uid (Some ws) s0
      | (OtherException, s0) \<Rightarrow> disconnect uid (Some ws) s0)"

text \<open>
  \<^verbatim>\<open>broadcast_to_all(message, exclude_user=None)\<close>. The outer loop iterates the live
  dictionary. A Python dictionary iterator raises \<^verbatim>\<open>RuntimeError\<close> at its next step once
  the dictionary's size differs from the size at the start of the iteration; the only
  change the loop body makes to the dictionary is \<^verbatim>\<open>disconnect\<close> deleting the key of the
  user being served, so the iteration is the list of keys at the start, with the size
  test before each step, and the set of a user read when the user is reached. The
  \<^verbatim>\<open>RuntimeError\<close> is caught by the method's outer handler: the broadcast ends there.
\<close>

fun broadcast_conns :: "user_id \<Rightarrow> message \<Rightarrow> websocket list \<Rightarrow> manager \<Rightarrow> manager" where
  "broadcast_conns uid msg [] s = s"
| "broadcast_conns uid msg (ws # rest) s =
     (case send_to_connection ws msg s of
        (Succeeds, s1) \<Rightarrow> broadcast_conns uid msg rest (bump_sent s1)
      | (WebSocketDisconnect, s1) \<Rightarrow> broadcast_conns uid msg rest (disconnect uid (Some ws) s1)
      | (OtherException, s1) \<Rightarrow> broadcast_conns uid msg rest (disconnect uid (Some ws) s1))"

fun broadcast_users :: "nat \<Rightarrow> user_id option \<Rightarrow> message \<Rightarrow> user_id list \<Rightarrow> manager \<Rightarrow> manager" where
  "broadcast_users n exclude_user msg [] s = s"
| "broadcast_users n exclude_user msg (uid # rest) s =
     (if length (active_connections s) \<noteq> n then s
      else if truthy exclude_user \<and> Some uid = exclude_user
           then broadcast_users n exclude_user msg rest s
      else broadcast_users n exclude_user msg rest
             (broadcast_conns uid msg (conns_of uid (active_connections s)) s))"

definition broadcast_to_all :: "message \<Rightarrow> user_id option \<Rightarrow> manager \<Rightarrow> message \<times> manager" where
  "broadcast_to_all msg exclude_user s =
     (let msg' = stamp (clock s) msg
      in (msg', broadcast_users (length (active_connections s)) exclude_user msg'
                  (map fst (active_connections s)) s))"

text \<open>\<^verbatim>\<open>_handle_ping(websocket, data)\<close>: the reply goes straight to the socket.\<close>

definition pong :: "time \<Rightarrow> message" where
  "pong t = [(''type'', JStr ''pong''), (''timestamp'', JTime t)]"

definition handle_ping :: "websocket \<Rightarrow> message \<Rightarrow> manager \<Rightarrow> manager" where
  "handle_ping ws data s = snd (send_to_connection ws (pong (clock s)) s)"

text \<open>
  \<^verbatim>\<open>_handle_typing\<close> builds a dictionary and logs it; \<^verbatim>\<open>_handle_voice_data\<close> acknowledges
  through \<^verbatim>\<open>send_to_user\<close>; \<^verbatim>\<open>_handle_user_status\<close> writes the status, any JSON value,
  and the time into the user's session when there is one. \<^verbatim>\<open>data.get(key, default)\<close> is
  \<open>dict_get\<close>.
\<close>

definition dict_get :: "message \<Rightarrow> string \<Rightarrow> json \<Rightarrow> json" where
  "dict_get d k dflt = (case map_of d k of None \<Rightarrow> dflt | Some v \<Rightarrow> v)"

definition handle_typing :: "user_id \<Rightarrow> message \<Rightarrow> manager \<Rightarrow> manager" where
  "handle_typing uid data s = s"

definition voice_received :: "time \<Rightarrow> message" where
  "voice_received t =
     [(''type'', JStr ''voice_received''),
      (''data'', JDict [(''status'', JStr ''processing''), (''timestamp'', JTime t)])]"

definition handle_voice_data :: "user_id \<Rightarrow> message \<Rightarrow> manager \<Rightarrow> manager" where
  "handle_voice_data uid data s = snd (snd (send_to_user uid (voice_received (clock s)) s))"

definition handle_user_status :: "user_id \<Rightarrow> message \<Rightarrow> manager \<Rightarrow> manager" where
  "handle_user_status uid data s =
     (case user_sessions s uid of
        None \<Rightarrow> s
      | Some se \<Rightarrow>
          s\<lparr>user_sessions := (user_sessions s)
               (uid \<mapsto> se\<lparr> sess_status := Some (dict_get data ''status'' (JStr ''online'')),
                          sess_last_activity := clock s \<rparr>)\<rparr>)"

text \<open>
  \<^verbatim>\<open>handle_message(websocket, message)\<close>. The text received is given as the result of
  \<^verbatim>\<open>json.loads\<close>: \<open>None\<close> when it raises \<^verbatim>\<open>JSONDecodeError\<close>. A message from a socket
  without metadata is dropped. Otherwise the counter and the session's time of last
  activity are updated first; then \<^verbatim>\<open>data.get('type')\<close> raises \<^verbatim>\<open>AttributeError\<close> when
  the value parsed is not an object, which the handler logs, and an object is dispatched
  on its type.
\<close>

definition handle_message :: "websocket \<Rightarrow> json option \<Rightarrow> manager \<Rightarrow> manager" where
  "handle_message ws parsed s =
     (case parsed of
        None \<Rightarrow> s
      | Some data \<Rightarrow>
          (case map_of (connection_metadata s) ws of
             None \<Rightarrow> s
           | Some connection_info \<Rightarrow>
               (let uid = meta_user_id connection_info;
                    s1 = s\<lparr>connection_stats :=
                           (connection_stats s)
                             \<lparr>messages_received := messages_received (connection_stats s) + 1\<rparr>\<rparr>;
                    s2 = (case user_sessions s1 uid of
                            None \<Rightarrow> s1
                          | Some se \<Rightarrow>
                              s1\<lparr>user_sessions :=
                                   (user_sessions s1)(uid \<mapsto> se\<lparr>sess_last_activity := clock s1\<rparr>)\<rparr>)
                in case data of
                     JDict d \<Rightarrow>
                       (let message_type = map_of d ''type''
                        in if message_type = Some (JStr ''ping'') then handle_ping ws d s2
                           else if message_type = Some (JStr ''typing'') then handle_typing uid d s2
                           else if message_type = Some (JStr ''voice_data'') then handle_voice_data uid d s2
                           else if message_type = Some (JStr ''user_status'') then handle_user_status uid d s2
                           else s2)
                   | _ \<Rightarrow> s2)))"

text \<open>\<^verbatim>\<open>broadcast_to_user(user_id, message)\<close> is \<^verbatim>\<open>send_to_user\<close> with the flag dropped.\<close>

definition broadcast_to_user :: "user_id \<Rightarrow> message \<Rightarrow> manager \<Rightarrow> message \<times> manager" where
  "broadcast_to_user uid msg s = snd (send_to_user uid msg s)"

text \<open>\<^verbatim>\<open>get_active_users\<close>, \<^verbatim>\<open>get_user_connection_count\<close>, \<^verbatim>\<open>get_user_session\<close>\<close>

definition get_active_users :: "manager \<Rightarrow> user_id list" where
  "get_active_users s = map fst (active_connections s)"

definition get_user_connection_count :: "user_id \<Rightarrow> manager \<Rightarrow> nat" where
  "get_user_connection_count uid s = length (conns_of uid (active_connections s))"

definition get_user_session :: "user_id \<Rightarrow> manager \<Rightarrow> session option" where
  "get_user_session uid s = user_sessions s uid"

text \<open>
  \<^verbatim>\<open>send_system_notification(message, user_id=None)\<close> and the three typed senders. Each
  builds its dictionary and hands it to \<^verbatim>\<open>send_to_user\<close> or \<^verbatim>\<open>broadcast_to_all\<close>.
\<close>

definition system_notification :: "string \<Rightarrow> time \<Rightarrow> message" where
  "system_notification text t =
     [(''type'', JStr ''system_notification''),
      (''data'', JDict [(''message'', JStr text), (''timestamp'', JTime t), (''severity'', JStr ''info'')])]"

definition send_system_notification :: "string \<Rightarrow> user_id option \<Rightarrow> manager \<Rightarrow> manager" where
  "send_system_notification text uid s =
     (let notification = system_notification text (clock s)
      in if truthy uid then snd (snd (send_to_user (the uid) notification s))
         else snd (broadcast_to_all notification None s))"

definition ai_response :: "string \<Rightarrow> message option \<Rightarrow> time \<Rightarrow> message" where
  "ai_response response context t =
     [(''type'', JStr ''ai_response''),
      (''data'', JDict [(''response'', JStr response), (''context'', JDict (or_empty context)),
                        (''timestamp'', JTime t)])]"

definition send_ai_response :: "user_id \<Rightarrow> string \<Rightarrow> message option \<Rightarrow> manager \<Rightarrow> manager" where
  "send_ai_response uid response context s =
     snd (snd (send_to_user uid (ai_response response context (clock s)) s))"

definition task_notification :: "message \<Rightarrow> time \<Rightarrow> message" where
  "task_notification task_data t =
     [(''type'', JStr ''task_notification''),
      (''data'', JDict (AList.update ''timestamp'' (JTime t) task_data))]"

definition send_task_notification :: "user_id \<Rightarrow> message \<Rightarrow> manager \<Rightarrow> manager" where
  "send_task_notification uid task_data s =
     snd (snd (send_to_user uid (task_notification task_data (clock s)) s))"

definition calendar_reminder :: "message \<Rightarrow> time \<Rightarrow> message" where
  "calendar_reminder event_data t =
     [(''type'', JStr ''calendar_reminder''),
      (''data'', JDict (AList.update ''timestamp'' (JTime t) event_data))]"

definition send_calendar_reminder :: "user_id \<Rightarrow> message \<Rightarrow> manager \<Rightarrow> manager" where
  "send_calendar_reminder uid event_data s =
     snd (snd (send_to_user uid (calendar_reminder event_data (clock s)) s))"

text \<open>
  \<^verbatim>\<open>cleanup_inactive_connections()\<close>: the age of a connection is the clock minus its
  \<^verbatim>\<open>connected_at\<close> (stored as text by \<^verbatim>\<open>isoformat\<close> and read back by
  \<^verbatim>\<open>fromisoformat\<close>, which returns the time stored), compared with 3600 seconds, here
  in microseconds.
\<close>

definition one_hour :: time where
  "one_hour = 3600 * 1000000"

definition inactive_connections :: "manager \<Rightarrow> (websocket \<times> user_id) list" where
  "inactive_connections s =
     map (\<lambda>(ws, md). (ws, meta_user_id md))
       (filter (\<lambda>(ws, md). clock s - meta_connected_at md > one_hour) (connection_metadata s))"

definition cleanup_inactive_connections :: "manager \<Rightarrow> manager" where
  "cleanup_inactive_connections s =
     fold (\<lambda>(ws, uid) st. disconnect uid (Some ws) st) (inactive_connections s) s"

text \<open>
  \<^verbatim>\<open>shutdown()\<close>: every listed user is disconnected, over a copy of the keys, and the
  four dictionaries are cleared.
\<close>

definition shutdown :: "manager \<Rightarrow> manager" where
  "shutdown s =
     (let s1 = fold (\<lambda>uid st. disconnect uid None st) (map fst (active_connections s)) s
      in s1\<lparr> active_connections := [], connection_metadata := [],
              user_sessions := Map.empty, offline_messages := Map.empty \<rparr>)"

subsection \<open>Histories\<close>

text \<open>
  A history is a sequence of calls on the manager, interleaved with what the environment
  does between calls: the clock advances, and the transport fixes how the coming
  \<^verbatim>\<open>accept\<close> and \<^verbatim>\<open>send_text\<close> calls will end.
\<close>

datatype event =
    Connect websocket user_id "message option"
  | Disconnect user_id "websocket option"
  | SendToUser user_id message
  | BroadcastToAll message "user_id option"
  | Cleanup
  | Ping websocket message
  | HandleMessage websocket "json option"
  | BroadcastToUser user_id message
  | Shutdown
  | SystemNotification string "user_id option"
  | AiResponse user_id string "message option"
  | TaskNotification user_id message
  | CalendarReminder user_id message
  | Advance time
  | Transport "outcome list"

fun step :: "event \<Rightarrow> manager \<Rightarrow> manager" where
  "step (Connect ws uid sd) s = connect ws uid sd s"
| "step (Disconnect uid wso) s = disconnect uid wso s"
| "step (SendToUser uid msg) s = snd (snd (send_to_user uid msg s))"
| "step (BroadcastToAll msg ex) s = snd (broadcast_to_all msg ex s)"
| "step Cleanup s = cleanup_inactive_connections s"
| "step (Ping ws data) s = handle_ping ws data s"
| "step (HandleMessage ws parsed) s = handle_message ws parsed s"
| "step (BroadcastToUser uid msg) s = snd (broadcast_to_user uid msg s)"
| "step Shutdown s = shutdown s"
| "step (SystemNotification text uid) s = send_system_notification text uid s"
| "step (AiResponse uid response context) s = send_ai_response uid response context s"
| "step (TaskNotification uid task_data) s = send_task_notification uid task_data s"
| "step (CalendarReminder uid event_data) s = send_calendar_reminder uid event_data s"
| "step (Advance d) s = s\<lparr>clock := clock s + d\<rparr>"
| "step (Transport outs) s = s\<lparr>transport := outs\<rparr>"

definition run :: "event list \<Rightarrow> manager \<Rightarrow> manager" where
  "run evs s = fold step evs s"

text \<open>
  The registry is well formed when no user id is stored twice, every stored set is
  non-empty and without repetitions, the sessions are those of the stored users, and no
  socket has two metadata entries.
\<close>

definition wf :: "manager \<Rightarrow> bool" where
  "wf s \<longleftrightarrow>
     distinct (map fst (active_connections s)) \<and>
     (\<forall>u cs. map_of (active_connections s) u = Some cs \<longrightarrow> cs \<noteq> [] \<and> distinct cs) \<and>
     dom (user_sessions s) = dom (map_of (active_connections s)) \<and>
     distinct (map fst (connection_metadata s))"

subsection \<open>Sample data for the concrete checks\<close>

text \<open>A backlog of 105 distinct task notifications, numbered in the order they are queued.\<close>

definition backlog :: "message list" where
  "backlog = map (\<lambda>i. [(''type'', JStr ''task_notification''), (''data'', JDict [(''id'', JInt (int i))])])
               [0..<105]"

text \<open>A message as the chat endpoint of main.py builds it.\<close>

definition hello :: message where
  "hello = [(''type'', JStr ''conversation''), (''data'', JDict [(''text'', JStr ''hi'')])]"

text \<open>
  The state inside \<^verbatim>\<open>connect\<close> just before the replay: user 5 has been registered on
  socket 2 and confirmed, one message waits in the user's queue, and the next
  \<^verbatim>\<open>send_text\<close> will raise.
\<close>

definition reconnecting :: manager where
  "reconnecting =
     \<lparr> active_connections = [(5, [2])],
       connection_metadata =
         [(2, \<lparr> meta_user_id = 5, meta_connected_at = 0, meta_session_id = 0,
                meta_session_data = [] \<rparr>)],
       user_sessions =
         [5 \<mapsto> \<lparr> sess_user_id = 5, sess_last_activity = 0, sess_active_connections = 1,
                  sess_session_data = [], sess_status = None \<rparr>],
       offline_messages = [5 \<mapsto> [hello]],
       connection_stats = \<lparr> total_connections = 1, stat_active_connections = 1,
                            messages_sent = 0, messages_received = 0 \<rparr>,
       clock = 0, uuid_source = 1, transport = [WebSocketDisconnect],
       delivered = [(2, connection_confirmed 5 0 0)], closed = [] \<rparr>"

text \<open>
  Users 0 and 5 are connected, on sockets 2 and 3, and the transport works; the state
  reached from the empty manager by these two connects.
\<close>

definition two_users :: manager where
  "two_users =
     \<lparr> active_connections = [(0, [2]), (5, [3])],
       connection_metadata =
         [(2, \<lparr> meta_user_id = 0, meta_connected_at = 0, meta_session_id = 0,
                meta_session_data = [] \<rparr>),
          (3, \<lparr> meta_user_id = 5, meta_connected_at = 0, meta_session_id = 1,
                meta_session_data = [] \<rparr>)],
       user_sessions =
         [0 \<mapsto> \<lparr> sess_user_id = 0, sess_last_activity = 0, sess_active_connections = 1,
                  sess_session_data = [], sess_status = None \<rparr>,
          5 \<mapsto> \<lparr> sess_user_id = 5, sess_last_activity = 0, sess_active_connections = 1,
                  sess_session_data = [], sess_status = None \<rparr>],
       offline_messages = Map.empty,
       connection_stats = \<lparr> total_connections = 2, stat_active_connections = 2,
                            messages_sent = 0, messages_received = 0 \<rparr>,
       clock = 0, uuid_source = 2, transport = [],
       delivered = [(2, connection_confirmed 0 0 0), (3, connection_confirmed 5 1 0)],
       closed = [] \<rparr>"

text \<open>A message that already carries a \<^verbatim>\<open>timestamp\<close> key, as its first key.\<close>

definition stale :: message where
  "stale = [(''timestamp'', JStr ''yesterday''), (''type'', JStr ''note''), (''data'', JDict [])]"

text \<open>
  The metadata table records the socket for this user with an age, at the time of the
  state, of more than one hour.
\<close>

definition expired :: "manager \<Rightarrow> user_id \<Rightarrow> websocket \<Rightarrow> bool" where
  "expired s uid ws =
     (case map_of (connection_metadata s) ws of
        None \<Rightarrow> False
      | Some md \<Rightarrow> meta_user_id md = uid \<and> clock s - meta_connected_at md > one_hour)"

text \<open>
  User 5 holds two sockets: socket 2, opened at time 0, and socket 3, opened two hours
  later; the user was last active five seconds before the present, which is ten seconds
  after the second socket was opened.
\<close>

definition aged :: manager where
  "aged =
     \<lparr> active_connections = [(5, [2, 3])],
       connection_metadata =
         [(2, \<lparr> meta_user_id = 5, meta_connected_at = 0, meta_session_id = 0,
                meta_session_data = [] \<rparr>),
          (3, \<lparr> meta_user_id = 5, meta_connected_at = 7200000000, meta_session_id = 1,
                meta_session_data = [] \<rparr>)],
       user_sessions =
         [5 \<mapsto> \<lparr> sess_user_id = 5, sess_last_activity = 7205000000, sess_active_connections = 2,
                  sess_session_data = [], sess_status = Some (JStr ''online'') \<rparr>],
       offline_messages = Map.empty,
       connection_stats = \<lparr> total_connections = 2, stat_active_connections = 2,
                            messages_sent = 0, messages_received = 1 \<rparr>,
       clock = 7210000000, uuid_source = 2, transport = [],
       delivered = [(2, connection_confirmed 5 0 0), (3, connection_confirmed 5 1 7200000000)],
       closed = [] \<rparr>"

text \<open>
  The shape the specification gives for outbound messages: a \<^verbatim>\<open>type\<close> that is a string,
  a \<^verbatim>\<open>data\<close> that is an object and a \<^verbatim>\<open>timestamp\<close> that is the text of a time, all
  three at the top level.
\<close>

definition well_shaped :: "message \<Rightarrow> bool" where
  "well_shaped m \<longleftrightarrow>
     (case map_of m ''type'' of Some (JStr t) \<Rightarrow> True | _ \<Rightarrow> False) \<and>
     (case map_of m ''data'' of Some (JDict d) \<Rightarrow> True | _ \<Rightarrow> False) \<and>
     (case map_of m ''timestamp'' of Some (JTime t) \<Rightarrow> True | _ \<Rightarrow> False)"

section \<open>Properties\<close>

subsection \<open>Dictionary lemmas and the well-formedness of the registry\<close>

lemma map_of_touch:
  "map_of (touch uid ac) = (if uid \<in> fst ` set ac then map_of ac else (map_of ac)(uid \<mapsto> []))"
proof (cases "uid \<in> fst ` set ac")
  case True
  then show ?thesis by (simp add: touch_def)
next
  case False
  then have "map_of ac uid = None" by (simp add: map_of_eq_None_iff)
  then have "map_of (ac @ [(uid, [])]) = (map_of ac)(uid \<mapsto> [])"
    by (auto simp: fun_eq_iff map_add_def split: option.splits)
  with False show ?thesis by (simp add: touch_def)
qed

lemma map_of_key: "map_of ac k = Some v \<Longrightarrow> k \<in> fst ` set ac"
  by (metis map_of_SomeD fst_conv image_eqI)

lemma distinct_touch: "distinct (map fst ac) \<Longrightarrow> distinct (map fst (touch uid ac))"
  by (auto simp: touch_def)

lemma in_keys_touch: "uid \<in> fst ` set (touch uid ac)"
  by (auto simp: touch_def)

lemma conns_of_touch: "conns_of uid' (touch uid ac) = conns_of uid' ac"
  by (auto simp: conns_of_def map_of_touch split: option.splits dest: map_of_key)

lemma touch_present: "uid \<in> fst ` set ac \<Longrightarrow> touch uid ac = ac"
  by (simp add: touch_def)

lemma delete_touch_absent: "uid \<notin> fst ` set ac \<Longrightarrow> AList.delete uid (touch uid ac) = ac"
proof -
  assume a: "uid \<notin> fst ` set ac"
  have "AList.delete uid (ac @ [(uid, [])]) = AList.delete uid ac"
    by (simp add: AList.delete_eq)
  with a show ?thesis by (simp add: touch_def)
qed

lemma conns_of_update: "conns_of u (AList.update uid cs ac) = (if u = uid then cs else conns_of u ac)"
  by (simp add: conns_of_def update_conv')

lemma conns_of_delete: "conns_of u (AList.delete uid ac) = (if u = uid then [] else conns_of u ac)"
  by (simp add: conns_of_def delete_conv')

lemma conns_of_nonempty_key: "conns_of uid ac \<noteq> [] \<Longrightarrow> uid \<in> fst ` set ac"
  by (auto simp: conns_of_def split: option.splits dest: map_of_key)


lemma touch_update: "touch uid (AList.update uid cs ac) = AList.update uid cs ac"
  by (simp add: touch_def dom_update)

lemma delete_touch: "AList.delete uid (touch uid ac) = AList.delete uid ac"
  by (simp add: touch_def AList.delete_eq)

lemmas touch_simps =
  in_keys_touch conns_of_touch conns_of_update conns_of_delete touch_update delete_touch

lemma update_touch_delete: "AList.delete uid (AList.update uid cs (touch uid ac)) = AList.delete uid ac"
  by (simp add: touch_simps delete_update_same)

lemma update_touch: "cs \<noteq> [] \<Longrightarrow> conns_of uid ac \<noteq> [] \<Longrightarrow> AList.update uid cs (touch uid ac) = AList.update uid cs ac"
  by (simp add: touch_present conns_of_nonempty_key)

lemma update_conns_triv: "conns_of uid ac \<noteq> [] \<Longrightarrow> AList.update uid (conns_of uid ac) ac = ac"
  by (auto simp: conns_of_def split: option.splits intro: update_triv)

lemma disconnect_active_Some:
  "active_connections (disconnect uid (Some ws) s) =
     (let cs' = removeAll ws (conns_of uid (active_connections s))
      in if cs' = [] then AList.delete uid (active_connections s)
         else AList.update uid cs' (active_connections s))"
proof (cases "ws \<in> set (conns_of uid (active_connections s))")
  case True
  then have ne: "conns_of uid (active_connections s) \<noteq> []" by auto
  show ?thesis using True ne
    by (simp add: touch_simps disconnect_def Let_def update_touch_delete touch_present conns_of_nonempty_key delete_update_same)
next
  case False
  show ?thesis
  proof (cases "conns_of uid (active_connections s) = []")
    case True
    with False show ?thesis by (simp add: touch_simps disconnect_def Let_def)
  next
    case ne: False
    with False show ?thesis
      by (simp add: disconnect_def Let_def touch_present conns_of_nonempty_key update_conns_triv)
  qed
qed

lemma disconnect_active_None:
  "active_connections (disconnect uid None s) = AList.delete uid (active_connections s)"
  by (simp add: touch_simps disconnect_def Let_def update_touch_delete)

lemma disconnect_metadata_Some:
  "connection_metadata (disconnect uid (Some ws) s) = AList.delete ws (connection_metadata s)"
  by (simp add: disconnect_def Let_def)


lemma disconnect_sessions:
  "user_sessions (disconnect uid wso s) =
     (let n = length (conns_of uid (active_connections (disconnect uid wso s)))
      in if n = 0 then (user_sessions s)(uid := None)
         else (case user_sessions s uid of None \<Rightarrow> user_sessions s
               | Some se \<Rightarrow> (user_sessions s)(uid \<mapsto> se\<lparr>sess_active_connections := n\<rparr>)))"
  by (cases wso) (auto simp: disconnect_def Let_def fun_eq_iff split: option.splits)

lemma disconnect_other:
  "offline_messages (disconnect uid wso s) = offline_messages s"
  "clock (disconnect uid wso s) = clock s"
  "uuid_source (disconnect uid wso s) = uuid_source s"
  "transport (disconnect uid wso s) = transport s"
  "delivered (disconnect uid wso s) = delivered s"
  by (simp_all add: disconnect_def Let_def split: option.splits)

lemma fold_delete_if:
  "fold (\<lambda>conn md. if conn \<in> fst ` set md then AList.delete conn md else md) cs md
     = fold AList.delete cs md"
  by (induction cs arbitrary: md) auto

lemma distinct_fold_delete:
  "distinct (map fst md) \<Longrightarrow> distinct (map fst (fold AList.delete cs md))"
  by (induction cs arbitrary: md) (simp_all add: distinct_delete)

lemma disconnect_metadata_None:
  "connection_metadata (disconnect uid None s) =
     fold AList.delete (conns_of uid (active_connections s)) (connection_metadata s)"
  by (simp add: touch_simps disconnect_def Let_def fold_delete_if)

lemma wf_disconnect_active:
  assumes "distinct (map fst (active_connections s))"
  shows "distinct (map fst (active_connections (disconnect uid wso s)))"
  using assms
  by (cases wso) (simp_all add: disconnect_active_Some disconnect_active_None Let_def
        distinct_update distinct_delete)

lemma map_of_disconnect:
  "map_of (active_connections (disconnect uid wso s)) =
     (let cs' = (case wso of None \<Rightarrow> []
                 | Some ws \<Rightarrow> removeAll ws (conns_of uid (active_connections s)))
      in if cs' = [] then (map_of (active_connections s))(uid := None)
         else (map_of (active_connections s))(uid \<mapsto> cs'))"
  by (cases wso) (simp_all add: disconnect_active_Some disconnect_active_None Let_def
        update_conv' delete_conv')

lemma wf_disconnect: "wf s \<Longrightarrow> wf (disconnect uid wso s)"
  unfolding wf_def
proof (intro conjI)
  assume a: "distinct (map fst (active_connections s)) \<and>
     (\<forall>u cs. map_of (active_connections s) u = Some cs \<longrightarrow> cs \<noteq> [] \<and> distinct cs) \<and>
     dom (user_sessions s) = dom (map_of (active_connections s)) \<and>
     distinct (map fst (connection_metadata s))"
  show "distinct (map fst (active_connections (disconnect uid wso s)))"
    using a by (simp add: wf_disconnect_active)
  have dc: "distinct (conns_of uid (active_connections s))"
    using a by (auto simp: conns_of_def split: option.splits)
  show "\<forall>u cs. map_of (active_connections (disconnect uid wso s)) u = Some cs \<longrightarrow> cs \<noteq> [] \<and> distinct cs"
    using a dc by (auto simp: map_of_disconnect Let_def distinct_removeAll split: if_splits option.splits)
  show "dom (user_sessions (disconnect uid wso s)) = dom (map_of (active_connections (disconnect uid wso s)))"
    using a by (auto simp: disconnect_sessions map_of_disconnect Let_def conns_of_def split: if_splits option.splits)
  show "distinct (map fst (connection_metadata (disconnect uid wso s)))"
    using a by (cases wso) (simp_all add: disconnect_metadata_Some disconnect_metadata_None
        distinct_delete distinct_fold_delete)
qed


lemma wf_cong:
  "active_connections s' = active_connections s \<Longrightarrow> user_sessions s' = user_sessions s \<Longrightarrow>
   connection_metadata s' = connection_metadata s \<Longrightarrow> wf s' = wf s"
  by (simp add: wf_def)

lemma next_outcome_fields:
  assumes "next_outcome s = (e, s1)"
  shows "active_connections s1 = active_connections s" "user_sessions s1 = user_sessions s"
    "connection_metadata s1 = connection_metadata s" "offline_messages s1 = offline_messages s"
    "clock s1 = clock s" "delivered s1 = delivered s" "connection_stats s1 = connection_stats s"
    "uuid_source s1 = uuid_source s" "closed s1 = closed s"
  using assms by (auto simp: next_outcome_def split: list.splits)

lemma send_to_connection_fields:
  assumes "send_to_connection ws msg s = (e, s1)"
  shows "active_connections s1 = active_connections s" "user_sessions s1 = user_sessions s"
    "connection_metadata s1 = connection_metadata s" "offline_messages s1 = offline_messages s"
    "clock s1 = clock s" "connection_stats s1 = connection_stats s"
    "delivered s1 = (if e = Succeeds then delivered s @ [(ws, msg)] else delivered s)"
  using assms
  by (auto simp: send_to_connection_def next_outcome_def split: list.splits outcome.splits prod.splits)

lemma wf_send_to_connection: "send_to_connection ws msg s = (e, s1) \<Longrightarrow> wf s1 = wf s"
  by (rule wf_cong) (simp_all add: send_to_connection_fields)

lemma queue_offline_message_fields:
  "active_connections (queue_offline_message uid msg s) = active_connections s"
  "user_sessions (queue_offline_message uid msg s) = user_sessions s"
  "connection_metadata (queue_offline_message uid msg s) = connection_metadata s"
  "clock (queue_offline_message uid msg s) = clock s"
  "delivered (queue_offline_message uid msg s) = delivered s"
  "transport (queue_offline_message uid msg s) = transport s"
  by (simp_all add: queue_offline_message_def Let_def)

lemma wf_queue_offline_message: "wf (queue_offline_message uid msg s) = wf s"
  by (rule wf_cong) (simp_all add: queue_offline_message_fields)

lemma wf_send_loop: "wf s \<Longrightarrow> wf (snd (send_loop uid msg cs sent s))"
proof (induction cs arbitrary: sent s)
  case Nil
  then show ?case by simp
next
  case (Cons ws cs)
  obtain e s1 where e: "send_to_connection ws msg s = (e, s1)" by fastforce
  with Cons.prems have "wf s1" by (simp add: wf_send_to_connection)
  with e Cons.IH show ?case by (cases e) (simp_all add: wf_disconnect)
qed

lemma clock_send_loop: "clock (snd (send_loop uid msg cs sent s)) = clock s"
proof (induction cs arbitrary: sent s)
  case Nil
  then show ?case by simp
next
  case (Cons ws cs)
  obtain e s1 where e: "send_to_connection ws msg s = (e, s1)" by fastforce
  with Cons.IH show ?case by (cases e) (simp_all add: disconnect_other send_to_connection_fields)
qed


lemma send_to_user_alt:
  "send_to_user uid msg s =
     (let msg' = stamp (clock s) msg;
          r = send_loop uid msg' (conns_of uid (active_connections s)) False s
      in (fst r, msg', if fst r then bump_sent (snd r) else queue_offline_message uid msg' (snd r)))"
proof (cases "uid \<in> fst ` set (active_connections s)")
  case True
  then show ?thesis
    by (auto simp: send_to_user_def Let_def bump_sent_def split: prod.splits bool.splits)
next
  case False
  then have "conns_of uid (active_connections s) = []"
    using conns_of_nonempty_key by blast
  with False show ?thesis
    by (simp add: send_to_user_def Let_def)
qed

lemma bump_sent_fields:
  "active_connections (bump_sent s) = active_connections s"
  "user_sessions (bump_sent s) = user_sessions s"
  "connection_metadata (bump_sent s) = connection_metadata s"
  "offline_messages (bump_sent s) = offline_messages s"
  "clock (bump_sent s) = clock s"
  "delivered (bump_sent s) = delivered s"
  "transport (bump_sent s) = transport s"
  by (simp_all add: bump_sent_def)

lemma wf_bump_sent: "wf (bump_sent s) = wf s"
  by (rule wf_cong) (simp_all add: bump_sent_fields)

lemma wf_send_to_user: "wf s \<Longrightarrow> wf (snd (snd (send_to_user uid msg s)))"
  by (simp add: send_to_user_alt Let_def wf_send_loop wf_bump_sent wf_queue_offline_message)

lemma clock_send_to_user: "clock (snd (snd (send_to_user uid msg s))) = clock s"
  by (simp add: send_to_user_alt Let_def clock_send_loop bump_sent_fields queue_offline_message_fields)

lemma register_fields:
  "transport (register ws uid sd s) = transport s"
  "clock (register ws uid sd s) = clock s"
  "delivered (register ws uid sd s) = delivered s"
  "offline_messages (register ws uid sd s) = offline_messages s"
  by (simp_all add: register_def Let_def)

lemma queued_send_offline_messages: "queued uid (send_offline_messages uid s) = []"
  by (simp add: send_offline_messages_def queued_def Let_def split: option.splits)

lemma fold_enqueue_fields:
  "transport (fold (queue_offline_message uid) ms s) = transport s"
  "clock (fold (queue_offline_message uid) ms s) = clock s"
  "delivered (fold (queue_offline_message uid) ms s) = delivered s"
  "active_connections (fold (queue_offline_message uid) ms s) = active_connections s"
  "uuid_source (fold (queue_offline_message uid) ms s) = uuid_source s"
  by (induction ms arbitrary: s) (simp_all add: queue_offline_message_def Let_def)

lemma truthy_simps: "truthy None = False" "truthy (Some n) = (n \<noteq> 0)"
  by (simp_all add: truthy_def)

lemmas mgr_simps =
  touch_simps disconnect_other queue_offline_message_fields wf_queue_offline_message clock_send_loop
  bump_sent_fields wf_bump_sent clock_send_to_user register_fields queued_send_offline_messages
  fold_enqueue_fields truthy_simps

lemma wf_fold_send:
  "wf s \<Longrightarrow> wf (fold (\<lambda>m st. snd (snd (send_to_user uid (f m) st))) ms s)"
  by (induction ms arbitrary: s) (simp_all add: wf_send_to_user)

lemma wf_send_offline_messages: "wf s \<Longrightarrow> wf (send_offline_messages uid s)"
proof -
  assume w: "wf s"
  have "wf (s1\<lparr>offline_messages := q\<rparr>) = wf s1" for s1 q
    by (rule wf_cong) simp_all
  with w show ?thesis
    by (simp add: send_offline_messages_def Let_def wf_fold_send split: option.splits)
qed


lemma register_active:
  "active_connections (register ws uid sd s) =
     AList.update uid (set_add ws (conns_of uid (active_connections s))) (touch uid (active_connections s))"
  by (simp add: mgr_simps register_def Let_def)

lemma update_touch_map_of:
  "map_of (AList.update uid cs (touch uid ac)) = (map_of ac)(uid \<mapsto> cs)"
  by (auto simp: update_conv' map_of_touch)

lemma set_add_props: "set_add ws cs \<noteq> []" "distinct cs \<Longrightarrow> distinct (set_add ws cs)"
  by (auto simp: set_add_def)

lemma wf_register: "wf s \<Longrightarrow> wf (register ws uid sd s)"
  unfolding wf_def
proof (intro conjI)
  assume a: "distinct (map fst (active_connections s)) \<and>
     (\<forall>u cs. map_of (active_connections s) u = Some cs \<longrightarrow> cs \<noteq> [] \<and> distinct cs) \<and>
     dom (user_sessions s) = dom (map_of (active_connections s)) \<and>
     distinct (map fst (connection_metadata s))"
  show "distinct (map fst (active_connections (register ws uid sd s)))"
    using a by (simp add: register_active distinct_update distinct_touch)
  have dc: "distinct (conns_of uid (active_connections s))"
    using a by (auto simp: conns_of_def split: option.splits)
  show "\<forall>u cs. map_of (active_connections (register ws uid sd s)) u = Some cs \<longrightarrow> cs \<noteq> [] \<and> distinct cs"
    using a dc by (auto simp: register_active update_touch_map_of set_add_props)
  show "dom (user_sessions (register ws uid sd s)) = dom (map_of (active_connections (register ws uid sd s)))"
    using a by (simp add: register_active update_touch_map_of) (simp add: register_def Let_def)
  show "distinct (map fst (connection_metadata (register ws uid sd s)))"
    using a by (simp add: register_def Let_def distinct_update)
qed

lemma wf_next_outcome: "next_outcome s = (e, s1) \<Longrightarrow> wf s1 = wf s"
  by (rule wf_cong) (simp_all add: next_outcome_fields)

lemma wf_connect: "wf s \<Longrightarrow> wf (connect ws uid sd s)"
proof -
  assume w: "wf s"
  obtain e s0 where e: "next_outcome s = (e, s0)" by fastforce
  with w have w0: "wf s0" by (simp add: wf_next_outcome)
  then have w1: "wf (register ws uid sd s0)" by (rule wf_register)
  show ?thesis
  proof (cases e)
    case Succeeds
    show ?thesis
    proof (cases "map_of (connection_metadata (register ws uid sd s0)) ws")
      case None
      with e Succeeds w1 show ?thesis by (simp add: connect_def Let_def wf_disconnect)
    next
      case (Some md)
      obtain e' s2 where e': "send_to_connection ws
          (connection_confirmed uid (meta_session_id md) (clock (register ws uid sd s0)))
          (register ws uid sd s0) = (e', s2)" by fastforce
      with w1 have "wf s2" by (simp add: wf_send_to_connection)
      with e Succeeds Some e' show ?thesis
        by (cases e') (simp_all add: connect_def Let_def wf_disconnect wf_send_offline_messages)
    qed
  qed (use e w0 in \<open>simp_all add: connect_def wf_disconnect\<close>)
qed

lemma wf_broadcast_conns: "wf s \<Longrightarrow> wf (broadcast_conns uid msg cs s)"
proof (induction cs arbitrary: s)
  case Nil
  then show ?case by simp
next
  case (Cons ws cs)
  obtain e s1 where e: "send_to_connection ws msg s = (e, s1)" by fastforce
  with Cons.prems have "wf s1" by (simp add: wf_send_to_connection)
  with e Cons.IH show ?case by (cases e) (simp_all add: mgr_simps wf_disconnect)
qed

lemma wf_broadcast_users: "wf s \<Longrightarrow> wf (broadcast_users n ex msg us s)"
  by (induction us arbitrary: s) (simp_all add: wf_broadcast_conns)

lemma wf_broadcast_to_all: "wf s \<Longrightarrow> wf (snd (broadcast_to_all msg ex s))"
  by (simp add: broadcast_to_all_def Let_def wf_broadcast_users)

lemma wf_fold_disconnect:
  "wf s \<Longrightarrow> wf (fold (\<lambda>(ws, uid) st. disconnect uid (Some ws) st) ps s)"
  by (induction ps arbitrary: s) (auto simp: wf_disconnect)

lemma wf_cleanup: "wf s \<Longrightarrow> wf (cleanup_inactive_connections s)"
  by (simp add: cleanup_inactive_connections_def wf_fold_disconnect)

lemma wf_init: "wf init"
  by (simp add: wf_def init_def)

lemma wf_handle_ping: "wf s \<Longrightarrow> wf (handle_ping ws data s)"
  by (metis handle_ping_def prod.collapse wf_send_to_connection)

lemma wf_send_system_notification: "wf s \<Longrightarrow> wf (send_system_notification text uid s)"
  by (simp add: send_system_notification_def Let_def wf_send_to_user wf_broadcast_to_all)

lemma wf_handle_user_status: "wf s \<Longrightarrow> wf (handle_user_status uid data s)"
  by (auto simp: handle_user_status_def wf_def split: option.splits)

lemma wf_touch_activity:
  "wf s \<Longrightarrow> user_sessions s uid = Some se \<Longrightarrow>
   wf (s\<lparr>user_sessions := (user_sessions s)(uid \<mapsto> se\<lparr>sess_last_activity := t\<rparr>)\<rparr>)"
  by (auto simp: wf_def)

lemma wf_handle_message: "wf s \<Longrightarrow> wf (handle_message ws parsed s)"
proof -
  assume w: "wf s"
  have r: "wf (s\<lparr>connection_stats := st\<rparr>)" for st
    using w by (simp add: wf_def)
  have d: "wf (case data of JDict d \<Rightarrow>
             (let message_type = map_of d ''type''
              in if message_type = Some (JStr ''ping'') then handle_ping ws d s2
                 else if message_type = Some (JStr ''typing'') then handle_typing uid d s2
                 else if message_type = Some (JStr ''voice_data'') then handle_voice_data uid d s2
                 else if message_type = Some (JStr ''user_status'') then handle_user_status uid d s2
                 else s2)
           | _ \<Rightarrow> s2)" if "wf s2" for data uid s2
    using that
    by (cases data)
       (simp_all add: Let_def wf_handle_ping handle_typing_def handle_voice_data_def
          wf_send_to_user wf_handle_user_status)
  show ?thesis
  proof (cases parsed)
    case None
    with w show ?thesis by (simp add: handle_message_def)
  next
    case (Some data)
    show ?thesis
    proof (cases "map_of (connection_metadata s) ws")
      case None
      with w Some show ?thesis by (simp add: handle_message_def)
    next
      case (Some info)
      let ?uid = "meta_user_id info"
      let ?s1 = "s\<lparr>connection_stats :=
                    (connection_stats s)
                      \<lparr>messages_received := messages_received (connection_stats s) + 1\<rparr>\<rparr>"
      let ?s2 = "case user_sessions ?s1 ?uid of
                   None \<Rightarrow> ?s1
                 | Some se \<Rightarrow>
                     ?s1\<lparr>user_sessions :=
                          (user_sessions ?s1)(?uid \<mapsto> se\<lparr>sess_last_activity := clock ?s1\<rparr>)\<rparr>"
      have "wf ?s1" by (rule r)
      then have "wf ?s2"
        by (cases "user_sessions ?s1 ?uid") (simp_all only: option.case wf_touch_activity)
      from d [OF this, where data = data and uid = ?uid] show ?thesis
        using \<open>parsed = Some data\<close> Some by (simp only: handle_message_def Let_def option.case)
    qed
  qed
qed

lemma wf_shutdown: "wf (shutdown s)"
  by (simp add: shutdown_def Let_def wf_def)

lemma wf_step: "wf s \<Longrightarrow> wf (step ev s)"
proof (cases ev)
  case (Advance d)
  have "wf (s\<lparr>clock := clock s + d\<rparr>) = wf s" by (rule wf_cong) simp_all
  then show "wf s \<Longrightarrow> wf (step ev s)" using Advance by simp
next
  case (Transport outs)
  have "wf (s\<lparr>transport := outs\<rparr>) = wf s" by (rule wf_cong) simp_all
  then show "wf s \<Longrightarrow> wf (step ev s)" using Transport by simp
qed (simp_all add: wf_connect wf_disconnect wf_send_to_user wf_broadcast_to_all wf_cleanup
       wf_handle_ping wf_send_system_notification send_ai_response_def
       send_task_notification_def send_calendar_reminder_def wf_handle_message wf_shutdown
       broadcast_to_user_def)

lemma wf_run: "wf s \<Longrightarrow> wf (run evs s)"
  unfolding run_def by (induction evs arbitrary: s) (simp_all add: wf_step)

lemma wf_active_iff_count:
  assumes "wf s"
  shows "u \<in> set (get_active_users s) \<longleftrightarrow> 0 < get_user_connection_count u s"
proof
  assume "u \<in> set (get_active_users s)"
  then have "map_of (active_connections s) u \<noteq> None"
    by (simp add: get_active_users_def map_of_eq_None_iff)
  then obtain cs where "map_of (active_connections s) u = Some cs" by blast
  with assms show "0 < get_user_connection_count u s"
    by (simp add: wf_def get_user_connection_count_def conns_of_def)
next
  assume "0 < get_user_connection_count u s"
  then have "conns_of u (active_connections s) \<noteq> []"
    by (simp add: get_user_connection_count_def)
  then show "u \<in> set (get_active_users s)"
    by (simp add: get_active_users_def conns_of_nonempty_key)
qed

lemma wf_session_iff_count:
  "wf s \<Longrightarrow> get_user_session u s \<noteq> None \<longleftrightarrow> 0 < get_user_connection_count u s"
  by (auto simp: wf_def get_user_session_def get_user_connection_count_def conns_of_def
      split: option.splits)

subsection \<open>The offline queue\<close>

lemma queued_queue_offline_message:
  "queued u (queue_offline_message uid m s) =
     (if u = uid then drop (Suc (length (queued uid s)) - max_queue_size) (queued uid s @ [m])
      else queued u s)"
  by (simp add: queue_offline_message_def queued_def Let_def)

lemma length_queued_enqueue:
  "length (queued uid (queue_offline_message uid m s)) \<le> max_queue_size"
  by (simp add: queued_queue_offline_message)

lemma queued_fold_enqueue:
  "length (queued uid s) \<le> max_queue_size \<Longrightarrow>
   queued uid (fold (queue_offline_message uid) ms s) =
     drop (length (queued uid s @ ms) - max_queue_size) (queued uid s @ ms)"
proof (induction ms arbitrary: s)
  case Nil
  then show ?case by simp
next
  case (Cons m ms)
  let ?s1 = "queue_offline_message uid m s"
  let ?k = "Suc (length (queued uid s)) - max_queue_size"
  have q1: "queued uid ?s1 = drop ?k (queued uid s @ [m])"
    by (simp add: queued_queue_offline_message)
  have "queued uid (fold (queue_offline_message uid) ms ?s1) =
          drop (length (queued uid ?s1 @ ms) - max_queue_size) (queued uid ?s1 @ ms)"
    by (rule Cons.IH) (rule length_queued_enqueue)
  also have "queued uid ?s1 @ ms = drop ?k (queued uid s @ m # ms)"
  proof -
    have "drop ?k (queued uid s @ [m]) @ ms = drop ?k ((queued uid s @ [m]) @ ms)"
      by (simp del: append_assoc add: max_queue_size_def)
    then show ?thesis by (simp add: q1)
  qed
  also have "drop (length (drop ?k (queued uid s @ m # ms)) - max_queue_size) (drop ?k (queued uid s @ m # ms))
      = drop (length (queued uid s @ m # ms) - max_queue_size) (queued uid s @ m # ms)"
  proof -
    have idx: "length (drop ?k (queued uid s @ m # ms)) - max_queue_size + ?k
                 = length (queued uid s @ m # ms) - max_queue_size"
      using Cons.prems by (simp add: max_queue_size_def)
    show ?thesis by (simp only: drop_drop idx)
  qed
  finally show ?case by simp
qed

lemma queued_fold_enqueue_105:
  assumes "length ms = 105"
  shows "queued uid (fold (queue_offline_message uid) ms s) = drop 5 ms"
proof -
  from assms obtain m ms' where ms: "ms = m # ms'" and l: "length ms' = 104"
    by (cases ms) auto
  let ?s1 = "queue_offline_message uid m s"
  let ?k = "Suc (length (queued uid s)) - max_queue_size"
  have q1: "queued uid ?s1 = drop ?k (queued uid s @ [m])"
    by (simp add: queued_queue_offline_message)
  have l1: "length (queued uid ?s1) \<le> max_queue_size" by (rule length_queued_enqueue)
  obtain q' where q': "queued uid ?s1 = q' @ [m]"
    using q1 by (cases "?k \<le> length (queued uid s)") (auto simp: max_queue_size_def)
  have "queued uid (fold (queue_offline_message uid) ms' ?s1) =
          drop (length (queued uid ?s1 @ ms') - max_queue_size) (queued uid ?s1 @ ms')"
    by (rule queued_fold_enqueue) (rule l1)
  also have "\<dots> = drop (length q' + 105 - 100) (q' @ ms)"
    by (simp add: q' ms l max_queue_size_def)
  also have "\<dots> = drop 5 ms"
    by simp
  finally show ?thesis by (simp add: ms)
qed

subsection \<open>What a call delivers\<close>

lemma send_loop_delivered:
  "\<exists>acc. subseq acc cs \<and>
         delivered (snd (send_loop uid msg cs sent s)) = delivered s @ map (\<lambda>w. (w, msg)) acc \<and>
         fst (send_loop uid msg cs sent s) = (sent \<or> acc \<noteq> [])"
proof (induction cs arbitrary: sent s)
  case Nil
  then show ?case by simp
next
  case (Cons ws cs)
  obtain e s1 where e: "send_to_connection ws msg s = (e, s1)" by fastforce
  show ?case
  proof (cases "e = Succeeds")
    case True
    from Cons.IH [of True s1] obtain acc where acc: "subseq acc cs"
      "delivered (snd (send_loop uid msg cs True s1)) = delivered s1 @ map (\<lambda>w. (w, msg)) acc"
      by blast
    have "delivered s1 = delivered s @ [(ws, msg)]"
      using e True by (simp add: send_to_connection_fields)
    moreover have step: "send_loop uid msg (ws # cs) sent s = send_loop uid msg cs True s1"
      using e True by simp
    moreover have "fst (send_loop uid msg cs True s1)"
      using Cons.IH [of True s1] by blast
    ultimately have "subseq (ws # acc) (ws # cs) \<and>
         delivered (snd (send_loop uid msg (ws # cs) sent s)) = delivered s @ map (\<lambda>w. (w, msg)) (ws # acc) \<and>
         fst (send_loop uid msg (ws # cs) sent s) = (sent \<or> ws # acc \<noteq> [])"
      unfolding step using acc by simp
    then show ?thesis by blast
  next
    case False
    let ?s2 = "disconnect uid (Some ws) s1"
    have step: "send_loop uid msg (ws # cs) sent s = send_loop uid msg cs sent ?s2"
      using e False by (cases e) simp_all
    have d: "delivered s1 = delivered s"
      using e False by (simp add: send_to_connection_fields)
    from Cons.IH [of sent ?s2] obtain acc where "subseq acc cs"
      "delivered (snd (send_loop uid msg cs sent ?s2)) = delivered ?s2 @ map (\<lambda>w. (w, msg)) acc"
      "fst (send_loop uid msg cs sent ?s2) = (sent \<or> acc \<noteq> [])"
      by blast
    then have "subseq acc (ws # cs) \<and>
         delivered (snd (send_loop uid msg (ws # cs) sent s)) = delivered s @ map (\<lambda>w. (w, msg)) acc \<and>
         fst (send_loop uid msg (ws # cs) sent s) = (sent \<or> acc \<noteq> [])"
      unfolding step by (auto simp: mgr_simps d)
    then show ?thesis by blast
  qed
qed


lemma send_to_connection_ok:
  "transport s = [] \<Longrightarrow>
   send_to_connection ws msg s = (Succeeds, s\<lparr>delivered := delivered s @ [(ws, msg)]\<rparr>)"
  by (simp add: send_to_connection_def next_outcome_def)

lemma send_loop_ok:
  "transport s = [] \<Longrightarrow>
   send_loop uid msg cs sent s =
     (sent \<or> cs \<noteq> [], s\<lparr>delivered := delivered s @ map (\<lambda>w. (w, msg)) cs\<rparr>)"
  by (induction cs arbitrary: sent s) (simp_all add: send_to_connection_ok)

lemma send_to_user_ok:
  assumes "transport s = []" "conns_of uid (active_connections s) \<noteq> []"
  shows "send_to_user uid msg s =
     (True, stamp (clock s) msg,
      bump_sent (s\<lparr>delivered := delivered s @
         map (\<lambda>w. (w, stamp (clock s) msg)) (conns_of uid (active_connections s))\<rparr>))"
  using assms by (simp add: send_to_user_alt Let_def send_loop_ok)

lemma fold_send_ok:
  assumes "transport s = []" "conns_of uid (active_connections s) = cs" "cs \<noteq> []"
  shows "delivered (fold (\<lambda>m st. snd (snd (send_to_user uid (f m) st))) ms s) =
           delivered s @ concat (map (\<lambda>m. map (\<lambda>w. (w, stamp (clock s) (f m))) cs) ms)
         \<and> offline_messages (fold (\<lambda>m st. snd (snd (send_to_user uid (f m) st))) ms s) = offline_messages s"
  using assms
proof (induction ms arbitrary: s)
  case Nil
  then show ?case by simp
next
  case (Cons m ms)
  let ?s1 = "snd (snd (send_to_user uid (f m) s))"
  have s1: "?s1 = bump_sent (s\<lparr>delivered := delivered s @ map (\<lambda>w. (w, stamp (clock s) (f m))) cs\<rparr>)"
    using Cons.prems by (simp add: send_to_user_ok)
  have "transport ?s1 = []" "conns_of uid (active_connections ?s1) = cs" "clock ?s1 = clock s"
    "offline_messages ?s1 = offline_messages s"
    "delivered ?s1 = delivered s @ map (\<lambda>w. (w, stamp (clock s) (f m))) cs"
    using Cons.prems by (simp_all add: mgr_simps s1)
  with Cons.IH [of ?s1] Cons.prems(3) show ?case by simp
qed

lemma send_offline_messages_ok:
  assumes "transport s = []" "conns_of uid (active_connections s) = cs" "cs \<noteq> []"
  shows "delivered (send_offline_messages uid s) =
           delivered s @ concat (map (\<lambda>m. map (\<lambda>w. (w, stamp (clock s) (offline_wrapper m))) cs) (queued uid s))"
  using fold_send_ok [OF assms, of offline_wrapper]
  by (simp add: send_offline_messages_def queued_def Let_def split: option.splits)

lemma register_conns:
  "conns_of uid (active_connections (register ws uid sd s)) = set_add ws (conns_of uid (active_connections s))"
  by (simp add: mgr_simps register_active)

lemma register_metadata:
  "map_of (connection_metadata (register ws uid sd s)) ws =
     Some \<lparr> meta_user_id = uid, meta_connected_at = clock s,
            meta_session_id = uuid_source s, meta_session_data = or_empty sd \<rparr>"
  by (simp add: register_def Let_def update_conv')

lemma connect_ok:
  assumes "transport s = []"
  shows "delivered (connect ws uid sd s) =
           delivered s @ (ws, connection_confirmed uid (uuid_source s) (clock s)) #
             concat (map (\<lambda>m. map (\<lambda>w. (w, stamp (clock s) (offline_wrapper m)))
                              (set_add ws (conns_of uid (active_connections s))))
                         (queued uid s))
         \<and> queued uid (connect ws uid sd s) = []"
proof -
  let ?s1 = "register ws uid sd s"
  let ?c = "connection_confirmed uid (uuid_source s) (clock s)"
  let ?s2 = "?s1\<lparr>delivered := delivered ?s1 @ [(ws, ?c)]\<rparr>"
  have n: "next_outcome s = (Succeeds, s)"
    using assms by (simp add: next_outcome_def)
  have t1: "transport ?s1 = []" using assms by (simp add: mgr_simps)
  have c: "connect ws uid sd s = send_offline_messages uid ?s2"
    using n send_to_connection_ok [OF t1]
    by (simp add: mgr_simps connect_def Let_def register_metadata)
  have "transport ?s2 = []" using assms by (simp add: mgr_simps)
  moreover have "conns_of uid (active_connections ?s2) = set_add ws (conns_of uid (active_connections s))"
    by (simp add: register_conns)
  moreover have "set_add ws (conns_of uid (active_connections s)) \<noteq> []"
    by (rule set_add_props)
  ultimately have "delivered (send_offline_messages uid ?s2) =
      delivered ?s2 @ concat (map (\<lambda>m. map (\<lambda>w. (w, stamp (clock ?s2) (offline_wrapper m)))
                              (set_add ws (conns_of uid (active_connections s))))
                         (queued uid ?s2))"
    by (rule send_offline_messages_ok)
  moreover have "queued uid ?s2 = queued uid s" by (simp add: mgr_simps queued_def)
  ultimately show ?thesis by (simp add: mgr_simps c)
qed

subsection \<open>Concrete states\<close>

text \<open>User 5 opens socket 2 on a fresh manager, and every transport call succeeds.\<close>

lemmas eval_defs = connect_def register_def next_outcome_def send_to_connection_def
  send_offline_messages_def disconnect_def touch_def conns_of_def set_add_def count_connections_def
  or_empty_def connection_confirmed_def Let_def

lemma connect_on_init:
  "connect 2 5 None init =
     \<lparr> active_connections = [(5, [2])],
       connection_metadata =
         [(2, \<lparr> meta_user_id = 5, meta_connected_at = 0, meta_session_id = 0,
                meta_session_data = [] \<rparr>)],
       user_sessions =
         [5 \<mapsto> \<lparr> sess_user_id = 5, sess_last_activity = 0, sess_active_connections = 1,
                  sess_session_data = [], sess_status = None \<rparr>],
       offline_messages = Map.empty,
       connection_stats = \<lparr> total_connections = 1, stat_active_connections = 1,
                            messages_sent = 0, messages_received = 0 \<rparr>,
       clock = 0, uuid_source = 1, transport = [],
       delivered = [(2, connection_confirmed 5 0 0)], closed = [] \<rparr>"
  by (simp add: eval_defs init_def)

subsection \<open>C1: the registry, the sessions and the connection counts agree\<close>

text \<open>
  Claim C1. After every sequence of operations (connect, disconnect, send\_to\_user,
  broadcast\_to\_all, the cleanup sweep, and also the typed senders, the handling of an
  inbound message and the shutdown), whatever the transport does and however the clock
  moves, a user id is listed by \<^verbatim>\<open>get_active_users()\<close> if and
  only if \<^verbatim>\<open>get_user_connection_count\<close> of it is positive, and the user has a session
  entry if and only if that count is positive.
\<close>

theorem registry_mirrors_connections:
  "(u \<in> set (get_active_users (run evs init)) \<longleftrightarrow> 0 < get_user_connection_count u (run evs init))
   \<and> (get_user_session u (run evs init) \<noteq> None \<longleftrightarrow> 0 < get_user_connection_count u (run evs init))"
  using wf_run [OF wf_init, of evs] wf_active_iff_count wf_session_iff_count by blast

theorem registry_mirrors_connections_witness:
  "5 \<in> set (get_active_users (run [Connect 2 5 None] init))
   \<and> get_user_connection_count 5 (run [Connect 2 5 None] init) = 1
   \<and> get_user_session 5 (run [Connect 2 5 None] init) \<noteq> None"
proof -
  have "get_user_connection_count 5 (run [Connect 2 5 None] init) = 1"
    by (simp add: run_def connect_on_init get_user_connection_count_def conns_of_def)
  then show ?thesis
    using registry_mirrors_connections [of 5 "[Connect 2 5 None]"] by simp
qed

subsection \<open>C2: the offline queue keeps the newest hundred, in order\<close>

text \<open>
  Claim C2. Queuing 105 messages for a user leaves exactly the last 100 of them in the
  queue, in the order they were queued, whatever the queue held before; when the user,
  being offline, then connects over a transport that works, the socket receives the
  confirmation followed by exactly these 100 messages, each wrapped as an offline
  message, in that order, and the queue is empty afterwards. After any single
  \<^verbatim>\<open>_queue_offline_message\<close> the queue holds at most 100 entries: the old queue with the
  new message at its tail, cut to its newest 100.
\<close>

theorem offline_queue_keeps_newest:
  "(length ms = 105 \<longrightarrow>
      queued uid (fold (queue_offline_message uid) ms s) = drop 5 ms
      \<and> (transport s = [] \<and> get_user_connection_count uid s = 0 \<longrightarrow>
           delivered (connect ws uid sd (fold (queue_offline_message uid) ms s)) =
             delivered s @ (ws, connection_confirmed uid (uuid_source s) (clock s)) #
               map (\<lambda>m. (ws, stamp (clock s) (offline_wrapper m))) (drop 5 ms)
           \<and> queued uid (connect ws uid sd (fold (queue_offline_message uid) ms s)) = []))
   \<and> length (queued uid (queue_offline_message uid m s)) \<le> 100
   \<and> queued uid (queue_offline_message uid m s) =
       drop (Suc (length (queued uid s)) - 100) (queued uid s @ [m])"
proof -
  let ?s' = "fold (queue_offline_message uid) ms s"
  have a: "queued uid ?s' = drop 5 ms" if "length ms = 105"
    using that by (rule queued_fold_enqueue_105)
  have b: "delivered (connect ws uid sd ?s') =
             delivered s @ (ws, connection_confirmed uid (uuid_source s) (clock s)) #
               map (\<lambda>m. (ws, stamp (clock s) (offline_wrapper m))) (drop 5 ms)
           \<and> queued uid (connect ws uid sd ?s') = []"
    if "length ms = 105" "transport s = []" "get_user_connection_count uid s = 0"
  proof -
    have "transport ?s' = []" using that by (simp add: mgr_simps)
    from connect_ok [OF this, of ws uid sd] a [OF that(1)] that(3)
    show ?thesis
      by (simp add: mgr_simps get_user_connection_count_def set_add_def)
  qed
  have c: "length (queued uid (queue_offline_message uid m s)) \<le> 100"
    using length_queued_enqueue [of uid m s] by (simp add: max_queue_size_def)
  have d: "queued uid (queue_offline_message uid m s) =
       drop (Suc (length (queued uid s)) - 100) (queued uid s @ [m])"
    by (simp add: queued_queue_offline_message max_queue_size_def)
  from a b c d show ?thesis by blast
qed

theorem offline_queue_keeps_newest_witness:
  "length backlog = 105
   \<and> queued 7 (fold (queue_offline_message 7) backlog init) = drop 5 backlog
   \<and> delivered (connect 2 7 None (fold (queue_offline_message 7) backlog init)) =
       (2, connection_confirmed 7 0 0) # map (\<lambda>m. (2, stamp 0 (offline_wrapper m))) (drop 5 backlog)
   \<and> queued 7 (connect 2 7 None (fold (queue_offline_message 7) backlog init)) = []"
proof -
  have l: "length backlog = 105" by (simp add: backlog_def)
  have i: "transport init = []" "get_user_connection_count 7 init = 0" "delivered init = []"
    "uuid_source init = 0" "clock init = 0"
    by (simp_all add: init_def get_user_connection_count_def conns_of_def)
  show ?thesis
    using offline_queue_keeps_newest [of backlog 7 init 2 None] l i by simp
qed

subsection \<open>C5: the flag returned by send\_to\_user\<close>

lemma send_to_user_delivered:
  "\<exists>acc. subseq acc (conns_of uid (active_connections s)) \<and>
         delivered (snd (snd (send_to_user uid msg s))) =
           delivered s @ map (\<lambda>w. (w, stamp (clock s) msg)) acc \<and>
         fst (send_to_user uid msg s) = (acc \<noteq> [])"
proof -
  let ?r = "send_loop uid (stamp (clock s) msg) (conns_of uid (active_connections s)) False s"
  have "delivered (snd (snd (send_to_user uid msg s))) = delivered (snd ?r)"
    "fst (send_to_user uid msg s) = fst ?r"
    by (simp_all add: mgr_simps send_to_user_alt Let_def)
  with send_loop_delivered [of "conns_of uid (active_connections s)" uid "stamp (clock s) msg" False s]
  show ?thesis by simp
qed

lemma send_to_user_offline:
  "conns_of uid (active_connections s) = [] \<Longrightarrow>
   send_to_user uid msg s =
     (False, stamp (clock s) msg, queue_offline_message uid (stamp (clock s) msg) s)"
  by (simp add: send_to_user_alt Let_def)

text \<open>
  Claim C5. \<^verbatim>\<open>send_to_user(user_id, message)\<close> returns true if and only if at least one
  of the user's connections accepted the message: the sends that succeeded are those to a
  sub-list of the user's sockets, each carrying the stamped message, and the flag is true
  exactly when that sub-list is not empty. When the user has no connection at the time
  of the call, the stamped message is handed to the offline queue and the call returns
  false.
\<close>

theorem send_to_user_true_iff_accepted:
  "(\<exists>acc. subseq acc (conns_of uid (active_connections s)) \<and>
          delivered (snd (snd (send_to_user uid msg s))) =
            delivered s @ map (\<lambda>w. (w, stamp (clock s) msg)) acc \<and>
          fst (send_to_user uid msg s) = (acc \<noteq> []))
   \<and> (get_user_connection_count uid s = 0 \<longrightarrow>
        send_to_user uid msg s =
          (False, stamp (clock s) msg, queue_offline_message uid (stamp (clock s) msg) s))"
  using send_to_user_delivered [of uid s msg] send_to_user_offline [of uid s msg]
  by (simp add: get_user_connection_count_def)

theorem send_to_user_true_iff_accepted_witness:
  "get_user_connection_count 7 init = 0
   \<and> send_to_user 7 hello init = (False, stamp 0 hello, queue_offline_message 7 (stamp 0 hello) init)
   \<and> (\<exists>acc. subseq acc [2] \<and>
          delivered (snd (snd (send_to_user 5 hello reconnecting))) =
            delivered reconnecting @ map (\<lambda>w. (w, stamp 0 hello)) acc \<and>
          fst (send_to_user 5 hello reconnecting) = (acc \<noteq> []))
   \<and> fst (send_to_user 5 hello (connect 2 5 None init)) = True
   \<and> delivered (snd (snd (send_to_user 5 hello (connect 2 5 None init)))) =
       [(2, connection_confirmed 5 0 0), (2, stamp 0 hello)]"
proof -
  have "get_user_connection_count 7 init = 0" "clock init = 0"
    by (simp_all add: init_def get_user_connection_count_def conns_of_def)
  moreover have "conns_of 5 (active_connections reconnecting) = [2]" "clock reconnecting = 0"
    by (simp_all add: reconnecting_def conns_of_def)
  moreover have "fst (send_to_user 5 hello (connect 2 5 None init)) = True"
    "delivered (snd (snd (send_to_user 5 hello (connect 2 5 None init)))) =
       [(2, connection_confirmed 5 0 0), (2, stamp 0 hello)]"
    using send_to_user_ok [of "connect 2 5 None init" 5 hello]
    by (simp_all add: mgr_simps connect_on_init conns_of_def)
  ultimately show ?thesis
    using send_to_user_true_iff_accepted [of 7 init hello]
      send_to_user_true_iff_accepted [of 5 reconnecting hello]
    by simp
qed

subsection \<open>C6: sending to a user without connections\<close>

text \<open>
  Claim C6. For every message, \<^verbatim>\<open>send_to_user\<close> for a user with no connection returns
  normally with false and appends exactly one message, the stamped one, to the tail of
  that user's offline queue (which is then cut to its newest 100 entries); no other
  queue changes, nothing is sent and the registry is untouched. The call cannot raise:
  on this path it performs one dictionary assignment and \<^verbatim>\<open>_queue_offline_message\<close>,
  and the model returns a value for every input.
\<close>

theorem send_to_offline_user_queues_once:
  assumes "get_user_connection_count uid s = 0"
  shows "fst (send_to_user uid msg s) = False
     \<and> queued uid (snd (snd (send_to_user uid msg s))) =
         drop (Suc (length (queued uid s)) - 100) (queued uid s @ [stamp (clock s) msg])
     \<and> (length (queued uid s) < 100 \<longrightarrow>
          queued uid (snd (snd (send_to_user uid msg s))) = queued uid s @ [stamp (clock s) msg])
     \<and> (\<forall>u. u \<noteq> uid \<longrightarrow> queued u (snd (snd (send_to_user uid msg s))) = queued u s)
     \<and> delivered (snd (snd (send_to_user uid msg s))) = delivered s
     \<and> active_connections (snd (snd (send_to_user uid msg s))) = active_connections s"
  using assms
  by (simp add: mgr_simps get_user_connection_count_def send_to_user_offline queued_queue_offline_message
      max_queue_size_def)

theorem send_to_offline_user_queues_once_witness:
  "get_user_connection_count 7 init = 0
   \<and> fst (send_to_user 7 hello init) = False
   \<and> queued 7 (snd (snd (send_to_user 7 hello init))) = [stamp 0 hello]
   \<and> queued 5 (snd (snd (send_to_user 7 hello init))) = []"
proof -
  have "get_user_connection_count 7 init = 0" "clock init = 0" "queued 7 init = []" "queued 5 init = []"
    by (simp_all add: init_def get_user_connection_count_def conns_of_def queued_def)
  then show ?thesis
    using send_to_offline_user_queues_once [of 7 init hello] by simp
qed

subsection \<open>C7: queued messages are replayed at most once and never kept\<close>

lemma filter_socket_distinct:
  "distinct acc \<Longrightarrow>
   map snd (filter (\<lambda>p. fst p = ws) (map (\<lambda>w. (w, m)) acc)) = (if ws \<in> set acc then [m] else [])"
  by (induction acc) auto

lemma subseq_distinct: "subseq xs ys \<Longrightarrow> distinct ys \<Longrightarrow> distinct xs"
  by (induction rule: list_emb.induct) (auto dest: list_emb_set)

lemma wf_conns_distinct: "wf s \<Longrightarrow> distinct (conns_of uid (active_connections s))"
  by (auto simp: wf_def conns_of_def split: option.splits)

lemma fold_send_once:
  "wf s \<Longrightarrow>
   \<exists>new. delivered (fold (\<lambda>m st. snd (snd (send_to_user uid (f m) st))) ms s) = delivered s @ new \<and>
         (\<forall>ws. subseq (map snd (filter (\<lambda>p. fst p = ws) new)) (map (\<lambda>m. stamp (clock s) (f m)) ms))"
proof (induction ms arbitrary: s)
  case Nil
  then show ?case by simp
next
  case (Cons m ms)
  let ?s1 = "snd (snd (send_to_user uid (f m) s))"
  have w1: "wf ?s1" using Cons.prems by (rule wf_send_to_user)
  have c1: "clock ?s1 = clock s" by (simp add: mgr_simps)
  obtain acc where acc: "subseq acc (conns_of uid (active_connections s))"
    "delivered ?s1 = delivered s @ map (\<lambda>w. (w, stamp (clock s) (f m))) acc"
    using send_to_user_delivered [of uid s "f m"] by blast
  have "distinct acc"
    using acc(1) wf_conns_distinct [OF Cons.prems] by (rule subseq_distinct)
  then have one: "map snd (filter (\<lambda>p. fst p = ws) (map (\<lambda>w. (w, stamp (clock s) (f m))) acc))
      = (if ws \<in> set acc then [stamp (clock s) (f m)] else [])" for ws
    by (rule filter_socket_distinct)
  from Cons.IH [OF w1] obtain new where new:
    "delivered (fold (\<lambda>m st. snd (snd (send_to_user uid (f m) st))) ms ?s1) = delivered ?s1 @ new"
    "\<And>ws. subseq (map snd (filter (\<lambda>p. fst p = ws) new)) (map (\<lambda>m. stamp (clock s) (f m)) ms)"
    unfolding c1 by blast
  let ?new = "map (\<lambda>w. (w, stamp (clock s) (f m))) acc @ new"
  have "delivered (fold (\<lambda>m st. snd (snd (send_to_user uid (f m) st))) (m # ms) s) = delivered s @ ?new"
    using new(1) acc(2) by simp
  moreover have "subseq (map snd (filter (\<lambda>p. fst p = ws) ?new))
                        (map (\<lambda>m. stamp (clock s) (f m)) (m # ms))" for ws
    using new(2) [of ws] one [of ws] by auto
  ultimately show ?case by blast
qed

text \<open>
  Claim C7. In a well-formed registry, whatever the transport does,
  \<^verbatim>\<open>_send_offline_messages\<close> leaves the user's queue empty, and everything it sends is a
  replay: for every socket, the messages it puts on that socket are a sub-sequence of the
  queued messages, wrapped as offline messages and stamped, in queue order. So each
  queued message reaches a socket at most once, and a message whose replay fails is
  not kept for a later attempt.
\<close>

theorem offline_replay_at_most_once:
  assumes "wf s"
  shows "queued uid (send_offline_messages uid s) = []
     \<and> (\<exists>new. delivered (send_offline_messages uid s) = delivered s @ new \<and>
           (\<forall>ws. subseq (map snd (filter (\<lambda>p. fst p = ws) new))
                    (map (\<lambda>m. stamp (clock s) (offline_wrapper m)) (queued uid s))))"
proof -
  have "\<exists>new. delivered (send_offline_messages uid s) = delivered s @ new \<and>
           (\<forall>ws. subseq (map snd (filter (\<lambda>p. fst p = ws) new))
                    (map (\<lambda>m. stamp (clock s) (offline_wrapper m)) (queued uid s)))"
  proof (cases "offline_messages s uid")
    case None
    then have "delivered (send_offline_messages uid s) = delivered s @ []"
      by (simp add: send_offline_messages_def)
    then show ?thesis by (metis filter.simps(1) list.simps(8) list_emb_Nil)
  next
    case (Some q)
    then show ?thesis
      using fold_send_once [OF assms, of uid offline_wrapper q]
      by (simp add: send_offline_messages_def Let_def queued_def)
  qed
  then show ?thesis by (simp add: mgr_simps)
qed

lemma send_to_connection_fails:
  "transport s = e # rest \<Longrightarrow> e \<noteq> Succeeds \<Longrightarrow>
   send_to_connection ws msg s = (e, s\<lparr>transport := rest\<rparr>)"
  by (cases e) (simp_all add: send_to_connection_def next_outcome_def)

lemma conns_of_disconnect:
  "conns_of u (active_connections (disconnect uid (Some ws) s)) =
     (if u = uid then removeAll ws (conns_of uid (active_connections s))
      else conns_of u (active_connections s))"
  by (simp add: mgr_simps disconnect_active_Some Let_def)

lemma failed_replay:
  "delivered (send_offline_messages 5 reconnecting) = delivered reconnecting
   \<and> get_user_connection_count 5 (send_offline_messages 5 reconnecting) = 0"
proof -
  let ?m = "stamp 0 (offline_wrapper hello)"
  let ?s1 = "disconnect 5 (Some 2) (reconnecting\<lparr>transport := []\<rparr>)"
  have t: "transport reconnecting = [WebSocketDisconnect]" "clock reconnecting = 0"
    "conns_of 5 (active_connections reconnecting) = [2]" "offline_messages reconnecting 5 = Some [hello]"
    by (simp_all add: reconnecting_def conns_of_def)
  have "send_loop 5 ?m [2] False reconnecting = (False, ?s1)"
    using send_to_connection_fails [OF t(1), of 2 ?m] by simp
  then have u: "snd (snd (send_to_user 5 (offline_wrapper hello) reconnecting)) =
      queue_offline_message 5 ?m ?s1"
    by (simp add: send_to_user_alt Let_def t)
  have "conns_of 5 (active_connections ?s1) = []"
    by (simp add: conns_of_disconnect t)
  then show ?thesis
    by (simp add: mgr_simps send_offline_messages_def t u get_user_connection_count_def Let_def)
qed

lemma wf_reconnecting: "wf reconnecting"
  by (simp add: wf_def reconnecting_def)

theorem offline_replay_at_most_once_witness:
  "wf reconnecting
   \<and> queued 5 reconnecting = [hello]
   \<and> queued 5 (send_offline_messages 5 reconnecting) = []
   \<and> delivered (send_offline_messages 5 reconnecting) = delivered reconnecting"
  using offline_replay_at_most_once [OF wf_reconnecting, of 5] failed_replay wf_reconnecting
  by (simp add: queued_def reconnecting_def)

subsection \<open>What a broadcast delivers\<close>

lemma two_users_reached: "run [Connect 2 0 None, Connect 3 5 None] init = two_users"
  by (simp add: run_def eval_defs init_def two_users_def)

lemma broadcast_conns_delivered:
  "\<exists>acc. subseq acc cs \<and> delivered (broadcast_conns uid msg cs s) = delivered s @ map (\<lambda>w. (w, msg)) acc"
proof (induction cs arbitrary: s)
  case Nil
  then show ?case by simp
next
  case (Cons ws cs)
  obtain e s1 where e: "send_to_connection ws msg s = (e, s1)" by fastforce
  show ?case
  proof (cases "e = Succeeds")
    case True
    have step: "broadcast_conns uid msg (ws # cs) s = broadcast_conns uid msg cs (bump_sent s1)"
      using e True by simp
    from Cons.IH [of "bump_sent s1"] obtain acc where acc: "subseq acc cs"
      "delivered (broadcast_conns uid msg cs (bump_sent s1)) = delivered (bump_sent s1) @ map (\<lambda>w. (w, msg)) acc"
      by blast
    have "delivered s1 = delivered s @ [(ws, msg)]"
      using e True by (simp add: send_to_connection_fields)
    with acc have "subseq (ws # acc) (ws # cs) \<and>
        delivered (broadcast_conns uid msg (ws # cs) s) = delivered s @ map (\<lambda>w. (w, msg)) (ws # acc)"
      unfolding step by (simp add: mgr_simps)
    then show ?thesis by blast
  next
    case False
    have step: "broadcast_conns uid msg (ws # cs) s = broadcast_conns uid msg cs (disconnect uid (Some ws) s1)"
      using e False by (cases e) simp_all
    have d: "delivered s1 = delivered s"
      using e False by (simp add: send_to_connection_fields)
    from Cons.IH [of "disconnect uid (Some ws) s1"] obtain acc where "subseq acc cs"
      "delivered (broadcast_conns uid msg cs (disconnect uid (Some ws) s1)) =
         delivered (disconnect uid (Some ws) s1) @ map (\<lambda>w. (w, msg)) acc"
      by blast
    then have "subseq acc (ws # cs) \<and>
        delivered (broadcast_conns uid msg (ws # cs) s) = delivered s @ map (\<lambda>w. (w, msg)) acc"
      unfolding step by (auto simp: mgr_simps d)
    then show ?thesis by blast
  qed
qed

lemma broadcast_users_delivered:
  "\<exists>acc. delivered (broadcast_users n ex msg us s) = delivered s @ map (\<lambda>w. (w, msg)) acc"
proof (induction us arbitrary: s)
  case Nil
  have "delivered s = delivered s @ map (\<lambda>w. (w, msg)) []" by simp
  then show ?case by (metis broadcast_users.simps(1))
next
  case (Cons u us)
  let ?s1 = "broadcast_conns u msg (conns_of u (active_connections s)) s"
  consider (abort) "length (active_connections s) \<noteq> n"
    | (skip) "length (active_connections s) = n" "truthy ex \<and> Some u = ex"
    | (serve) "length (active_connections s) = n" "\<not> (truthy ex \<and> Some u = ex)"
    by blast
  then show ?case
  proof cases
    case abort
    have "delivered s = delivered s @ map (\<lambda>w. (w, msg)) []" by simp
    with abort show ?thesis by (metis broadcast_users.simps(2))
  next
    case skip
    with Cons.IH [of s] show ?thesis by simp
  next
    case serve
    obtain a1 where a1: "delivered ?s1 = delivered s @ map (\<lambda>w. (w, msg)) a1"
      using broadcast_conns_delivered by blast
    obtain a2 where a2: "delivered (broadcast_users n ex msg us ?s1) = delivered ?s1 @ map (\<lambda>w. (w, msg)) a2"
      using Cons.IH [of ?s1] by blast
    have "delivered (broadcast_users n ex msg (u # us) s) = delivered s @ map (\<lambda>w. (w, msg)) (a1 @ a2)"
      using serve a1 a2 by auto
    then show ?thesis by blast
  qed
qed

lemma broadcast_conns_ok:
  "transport s = [] \<Longrightarrow>
   delivered (broadcast_conns uid msg cs s) = delivered s @ map (\<lambda>w. (w, msg)) cs
   \<and> transport (broadcast_conns uid msg cs s) = []
   \<and> active_connections (broadcast_conns uid msg cs s) = active_connections s"
  by (induction cs arbitrary: s) (simp_all add: send_to_connection_ok bump_sent_def)

lemma broadcast_users_ok:
  "transport s = [] \<Longrightarrow> length (active_connections s) = n \<Longrightarrow>
   delivered (broadcast_users n ex msg us s) =
     delivered s @ concat (map (\<lambda>u. map (\<lambda>w. (w, msg)) (conns_of u (active_connections s)))
                               (filter (\<lambda>u. \<not> (truthy ex \<and> Some u = ex)) us))"
proof (induction us arbitrary: s)
  case Nil
  then show ?case by simp
next
  case (Cons u us)
  let ?s1 = "broadcast_conns u msg (conns_of u (active_connections s)) s"
  from broadcast_conns_ok [OF Cons.prems(1), of u msg "conns_of u (active_connections s)"]
  have s1: "delivered ?s1 = delivered s @ map (\<lambda>w. (w, msg)) (conns_of u (active_connections s))"
    "transport ?s1 = []" "active_connections ?s1 = active_connections s"
    by simp_all
  show ?case
  proof (cases "truthy ex \<and> Some u = ex")
    case True
    with Cons show ?thesis by simp
  next
    case False
    with Cons.IH [of ?s1] Cons.prems s1 show ?thesis by auto
  qed
qed

lemma broadcast_to_all_ok:
  "transport s = [] \<Longrightarrow>
   delivered (snd (broadcast_to_all msg ex s)) =
     delivered s @ concat (map (\<lambda>u. map (\<lambda>w. (w, stamp (clock s) msg)) (conns_of u (active_connections s)))
                               (filter (\<lambda>u. \<not> (truthy ex \<and> Some u = ex)) (get_active_users s)))"
  by (simp add: broadcast_to_all_def Let_def broadcast_users_ok get_active_users_def)


subsection \<open>C9: the caller's dictionary is stamped in place\<close>

lemma map_of_stamp: "map_of (stamp t msg) = (map_of msg)(''timestamp'' \<mapsto> JTime t)"
  by (simp add: stamp_def update_conv')

lemma keys_stamp:
  "map fst (stamp t msg) =
     (if ''timestamp'' \<in> set (map fst msg) then map fst msg else map fst msg @ [''timestamp''])"
  by (simp add: stamp_def update_keys)

lemma send_to_user_message: "fst (snd (send_to_user uid msg s)) = stamp (clock s) msg"
  by (simp add: send_to_user_alt Let_def)

lemma broadcast_to_all_message: "fst (broadcast_to_all msg ex s) = stamp (clock s) msg"
  by (simp add: broadcast_to_all_def Let_def)

text \<open>
  Claim C9. \<^verbatim>\<open>send_to_user\<close> and \<^verbatim>\<open>broadcast_to_all\<close> change the caller's dictionary:
  after the call its \<^verbatim>\<open>timestamp\<close> key holds the time of the call, whether or not the
  key was there before, every other key has the value it had, and the keys keep their
  order (a new \<^verbatim>\<open>timestamp\<close> key goes last). Everything either call sends is this
  stamped dictionary.
\<close>

theorem timestamp_written_in_place:
  "map_of (fst (snd (send_to_user uid msg s))) = (map_of msg)(''timestamp'' \<mapsto> JTime (clock s))
   \<and> map_of (fst (broadcast_to_all msg ex s)) = (map_of msg)(''timestamp'' \<mapsto> JTime (clock s))
   \<and> map fst (fst (snd (send_to_user uid msg s))) =
       (if ''timestamp'' \<in> set (map fst msg) then map fst msg else map fst msg @ [''timestamp''])
   \<and> map fst (fst (broadcast_to_all msg ex s)) =
       (if ''timestamp'' \<in> set (map fst msg) then map fst msg else map fst msg @ [''timestamp''])
   \<and> (\<exists>acc. delivered (snd (snd (send_to_user uid msg s))) =
              delivered s @ map (\<lambda>w. (w, fst (snd (send_to_user uid msg s)))) acc)
   \<and> (\<exists>acc. delivered (snd (broadcast_to_all msg ex s)) =
              delivered s @ map (\<lambda>w. (w, fst (broadcast_to_all msg ex s))) acc)"
proof -
  have "\<exists>acc. delivered (snd (snd (send_to_user uid msg s))) =
              delivered s @ map (\<lambda>w. (w, fst (snd (send_to_user uid msg s)))) acc"
    using send_to_user_delivered [of uid s msg] by (auto simp: send_to_user_message)
  moreover have "\<exists>acc. delivered (snd (broadcast_to_all msg ex s)) =
              delivered s @ map (\<lambda>w. (w, fst (broadcast_to_all msg ex s))) acc"
    using broadcast_users_delivered [of "length (active_connections s)" ex "stamp (clock s) msg"
        "map fst (active_connections s)" s]
    by (simp add: broadcast_to_all_def Let_def)
  ultimately show ?thesis
    by (simp only: send_to_user_message broadcast_to_all_message map_of_stamp keys_stamp)
qed

theorem timestamp_written_in_place_witness:
  "map_of (fst (snd (send_to_user 7 stale init))) ''timestamp'' = Some (JTime 0)
   \<and> map_of (fst (snd (send_to_user 7 stale init))) ''type'' = Some (JStr ''note'')
   \<and> map fst (fst (snd (send_to_user 7 stale init))) = [''timestamp'', ''type'', ''data'']
   \<and> map_of (fst (broadcast_to_all hello None init)) ''timestamp'' = Some (JTime 0)
   \<and> map fst (fst (broadcast_to_all hello None init)) = [''type'', ''data'', ''timestamp'']"
  using timestamp_written_in_place [of 7 stale init None] timestamp_written_in_place [of 7 hello init None]
  by (simp add: stale_def hello_def init_def)


subsection \<open>C10: a system notification for user 0 is broadcast\<close>

text \<open>
  Claim C10. \<^verbatim>\<open>send_system_notification\<close> with \<^verbatim>\<open>user_id = 0\<close> takes the branch of
  \<^verbatim>\<open>user_id = None\<close>: it is the broadcast of the notification with nobody excluded, so
  over a working transport every socket of every listed user receives it. For every
  other user id it is \<^verbatim>\<open>send_to_user\<close> for that user, and what it sends goes to sockets
  of that user only.
\<close>

theorem system_notification_for_user_zero_is_broadcast:
  "send_system_notification text (Some 0) s =
     snd (broadcast_to_all (system_notification text (clock s)) None s)
   \<and> (transport s = [] \<longrightarrow>
        delivered (send_system_notification text (Some 0) s) =
          delivered s @
          concat (map (\<lambda>u. map (\<lambda>w. (w, stamp (clock s) (system_notification text (clock s))))
                               (conns_of u (active_connections s)))
                      (get_active_users s)))
   \<and> (uid \<noteq> 0 \<longrightarrow>
        send_system_notification text (Some uid) s =
          snd (snd (send_to_user uid (system_notification text (clock s)) s))
        \<and> (\<exists>acc. subseq acc (conns_of uid (active_connections s)) \<and>
               delivered (send_system_notification text (Some uid) s) =
                 delivered s @
                 map (\<lambda>w. (w, stamp (clock s) (system_notification text (clock s)))) acc))"
proof -
  let ?n = "system_notification text (clock s)"
  have z: "send_system_notification text (Some 0) s = snd (broadcast_to_all ?n None s)"
    by (simp add: mgr_simps send_system_notification_def Let_def)
  have all: "delivered (send_system_notification text (Some 0) s) =
          delivered s @
          concat (map (\<lambda>u. map (\<lambda>w. (w, stamp (clock s) ?n)) (conns_of u (active_connections s)))
                      (get_active_users s))" if "transport s = []"
    using broadcast_to_all_ok [OF that, of ?n None] by (simp add: z)
  have nz: "send_system_notification text (Some uid) s = snd (snd (send_to_user uid ?n s))"
    if "uid \<noteq> 0"
    using that by (simp add: mgr_simps send_system_notification_def Let_def)
  have only: "\<exists>acc. subseq acc (conns_of uid (active_connections s)) \<and>
               delivered (send_system_notification text (Some uid) s) =
                 delivered s @ map (\<lambda>w. (w, stamp (clock s) ?n)) acc" if "uid \<noteq> 0"
    using send_to_user_delivered [of uid s ?n] nz [OF that] by auto
  from z all nz only show ?thesis by blast
qed

lemma two_users_facts:
  "transport two_users = []" "clock two_users = 0" "get_active_users two_users = [0, 5]"
  "conns_of 0 (active_connections two_users) = [2]" "conns_of 5 (active_connections two_users) = [3]"
  by (simp_all add: two_users_def get_active_users_def conns_of_def)

theorem system_notification_for_user_zero_is_broadcast_witness:
  "delivered (send_system_notification ''maintenance'' (Some 0) two_users) =
     delivered two_users @
       [(2, stamp 0 (system_notification ''maintenance'' 0)),
        (3, stamp 0 (system_notification ''maintenance'' 0))]
   \<and> send_system_notification ''maintenance'' (Some 5) two_users =
       snd (snd (send_to_user 5 (system_notification ''maintenance'' 0) two_users))
   \<and> delivered (send_system_notification ''maintenance'' (Some 5) two_users) =
       delivered two_users @ [(3, stamp 0 (system_notification ''maintenance'' 0))]"
proof -
  have "delivered (snd (snd (send_to_user 5 (system_notification ''maintenance'' 0) two_users))) =
       delivered two_users @ [(3, stamp 0 (system_notification ''maintenance'' 0))]"
    using send_to_user_ok [of two_users 5 "system_notification ''maintenance'' 0"]
    by (simp add: mgr_simps two_users_facts)
  moreover note t = system_notification_for_user_zero_is_broadcast [of "''maintenance''" two_users 5]
  moreover from t [THEN conjunct2, THEN conjunct1]
  have "delivered (send_system_notification ''maintenance'' (Some 0) two_users) =
     delivered two_users @
       [(2, stamp 0 (system_notification ''maintenance'' 0)),
        (3, stamp 0 (system_notification ''maintenance'' 0))]"
    by (simp add: two_users_facts)
  moreover from t [THEN conjunct2, THEN conjunct2]
  have "send_system_notification ''maintenance'' (Some 5) two_users =
       snd (snd (send_to_user 5 (system_notification ''maintenance'' 0) two_users))"
    by (simp add: two_users_facts)
  ultimately show ?thesis by simp
qed

subsection \<open>C3: a broadcast that excludes a user\<close>

text \<open>
  Over a transport that works, a broadcast reaches every socket of every listed user
  except the excluded one, when the excluded id is not 0: this is
  \<open>broadcast_to_all_ok\<close> above. Two inputs break the claim.
\<close>

text \<open>
  Claim C3, at \<^verbatim>\<open>exclude_user = 0\<close>. The claim says that a broadcast with
  \<^verbatim>\<open>exclude_user = X\<close> reaches every other user's sockets and none of X's. With users 0
  and 5 connected (sockets 2 and 3) and a working transport, the broadcast excluding
  user 0 sends the message to socket 2, the socket of user 0, as well as to socket 3:
  the test \<^verbatim>\<open>if exclude_user and user_id == exclude_user\<close> is false for 0.
\<close>

theorem broadcast_excluding_user_zero_reaches_user_zero:
  "get_active_users (run [Connect 2 0 None, Connect 3 5 None] init) = [0, 5]
   \<and> conns_of 0 (active_connections (run [Connect 2 0 None, Connect 3 5 None] init)) = [2]
   \<and> delivered (snd (broadcast_to_all hello (Some 0) (run [Connect 2 0 None, Connect 3 5 None] init))) =
       delivered (run [Connect 2 0 None, Connect 3 5 None] init) @
         [(2, stamp 0 hello), (3, stamp 0 hello)]"
  using broadcast_to_all_ok [of two_users hello "Some 0"]
  by (simp add: mgr_simps two_users_reached two_users_facts)

text \<open>
  The second input: the first user's only socket fails. \<^verbatim>\<open>disconnect\<close> then deletes
  that user's key while the dictionary is being iterated, the iterator raises at its next
  step, and user 5, whose socket works, receives nothing.
\<close>

lemma broadcast_users_step:
  "length (active_connections s) = n \<Longrightarrow> \<not> (truthy ex \<and> Some u = ex) \<Longrightarrow>
   broadcast_users n ex msg (u # us) s =
     broadcast_users n ex msg us (broadcast_conns u msg (conns_of u (active_connections s)) s)"
  by auto

lemma broadcast_users_abort:
  "length (active_connections s) \<noteq> n \<Longrightarrow> broadcast_users n ex msg (u # us) s = s"
  by simp

lemma broadcast_stops_after_lost_user:
  "get_active_users (two_users\<lparr>transport := [WebSocketDisconnect]\<rparr>) = [0, 5]
   \<and> delivered (snd (broadcast_to_all hello None (two_users\<lparr>transport := [WebSocketDisconnect]\<rparr>))) =
       delivered two_users
   \<and> transport (snd (broadcast_to_all hello None (two_users\<lparr>transport := [WebSocketDisconnect]\<rparr>))) = []
   \<and> active_connections (snd (broadcast_to_all hello None (two_users\<lparr>transport := [WebSocketDisconnect]\<rparr>))) =
       [(5, [3])]"
proof -
  let ?s = "two_users\<lparr>transport := [WebSocketDisconnect]\<rparr>"
  let ?m = "stamp 0 hello"
  let ?s1 = "disconnect 0 (Some 2) (two_users\<lparr>transport := []\<rparr>)"
  have f: "active_connections ?s = [(0, [2]), (5, [3])]" "clock ?s = 0"
    by (simp_all add: two_users_def)
  have k: "conns_of 0 (active_connections ?s) = [2]"
    by (simp add: f conns_of_def)
  have "send_to_connection 2 ?m ?s = (WebSocketDisconnect, two_users\<lparr>transport := []\<rparr>)"
    using send_to_connection_fails [of ?s WebSocketDisconnect "[]" 2 ?m] by simp
  then have c: "broadcast_conns 0 ?m [2] ?s = ?s1" by simp
  have a1: "active_connections ?s1 = [(5, [3])]"
    by (simp add: disconnect_active_Some two_users_def conns_of_def Let_def)
  have "broadcast_users 2 None ?m [0, 5] ?s =
          broadcast_users 2 None ?m [5] (broadcast_conns 0 ?m (conns_of 0 (active_connections ?s)) ?s)"
    by (rule broadcast_users_step) (simp_all add: f)
  also have "\<dots> = broadcast_users 2 None ?m [5] ?s1"
    by (simp only: k c)
  also have "\<dots> = ?s1"
    by (rule broadcast_users_abort) (simp add: a1)
  finally have bu: "broadcast_users 2 None ?m [0, 5] ?s = ?s1" .
  have "snd (broadcast_to_all hello None ?s) = broadcast_users 2 None ?m [0, 5] ?s"
    by (simp add: broadcast_to_all_def Let_def f numeral_2_eq_2 del: broadcast_users.simps)
  with bu have r: "snd (broadcast_to_all hello None ?s) = ?s1" by simp
  have "get_active_users ?s = [0, 5]" by (simp add: get_active_users_def f)
  moreover have "delivered ?s1 = delivered two_users" "transport ?s1 = []" by (simp_all add: mgr_simps)
  ultimately show ?thesis by (simp only: r a1)
qed

subsection \<open>C4: the sweep\<close>

lemma fold_disconnect_metadata:
  "connection_metadata (fold (\<lambda>(ws, uid) st. disconnect uid (Some ws) st) ps s) =
     filter (\<lambda>(w, md). w \<notin> fst ` set ps) (connection_metadata s)"
proof (induction ps arbitrary: s)
  case Nil
  then show ?case by simp
next
  case (Cons p ps)
  obtain ws uid where p: "p = (ws, uid)" by (cases p)
  have "connection_metadata (disconnect uid (Some ws) s) =
          filter (\<lambda>(w, md). w \<noteq> ws) (connection_metadata s)"
    by (auto simp: disconnect_metadata_Some AList.delete_eq intro: filter_cong)
  with Cons.IH [of "disconnect uid (Some ws) s"] show ?case
    by (auto simp: p intro: filter_cong)
qed

lemma fold_disconnect_conns:
  "conns_of u (active_connections (fold (\<lambda>(ws, uid) st. disconnect uid (Some ws) st) ps s)) =
     filter (\<lambda>w. (w, u) \<notin> set ps) (conns_of u (active_connections s))"
proof (induction ps arbitrary: s)
  case Nil
  then show ?case by simp
next
  case (Cons p ps)
  obtain ws uid where p: "p = (ws, uid)" by (cases p)
  have "conns_of u (active_connections (disconnect uid (Some ws) s)) =
          filter (\<lambda>w. (w, u) \<noteq> (ws, uid)) (conns_of u (active_connections s))"
    by (auto simp: conns_of_disconnect removeAll_filter_not_eq intro: filter_cong)
  with Cons.IH [of "disconnect uid (Some ws) s"] show ?case
    by (auto simp: p intro: filter_cong)
qed

lemma in_inactive_connections:
  "distinct (map fst (connection_metadata s)) \<Longrightarrow>
   (w, u) \<in> set (inactive_connections s) \<longleftrightarrow> expired s u w"
  by (auto simp: inactive_connections_def expired_def split: option.splits
      dest: eq_key_imp_eq_value)

lemma in_inactive_sockets:
  "distinct (map fst (connection_metadata s)) \<Longrightarrow> (w, md) \<in> set (connection_metadata s) \<Longrightarrow>
   w \<in> fst ` set (inactive_connections s) \<longleftrightarrow> clock s - meta_connected_at md > one_hour"
  by (force simp: inactive_connections_def dest: eq_key_imp_eq_value)

lemma cleanup_metadata:
  assumes "distinct (map fst (connection_metadata s))"
  shows "connection_metadata (cleanup_inactive_connections s) =
     filter (\<lambda>(ws, md). clock s - meta_connected_at md \<le> one_hour) (connection_metadata s)"
proof -
  have "filter (\<lambda>(w, md). w \<notin> fst ` set (inactive_connections s)) (connection_metadata s) =
        filter (\<lambda>(ws, md). clock s - meta_connected_at md \<le> one_hour) (connection_metadata s)"
  proof (rule filter_cong [OF refl])
    fix x assume x: "x \<in> set (connection_metadata s)"
    obtain w md where "x = (w, md)" by (cases x)
    with x in_inactive_sockets [OF assms, of w md]
    show "(case x of (w, md) \<Rightarrow> w \<notin> fst ` set (inactive_connections s)) =
          (case x of (ws, md) \<Rightarrow> clock s - meta_connected_at md \<le> one_hour)"
      by (simp add: not_less)
  qed
  then show ?thesis
    by (simp add: cleanup_inactive_connections_def fold_disconnect_metadata)
qed

lemma cleanup_conns:
  assumes "distinct (map fst (connection_metadata s))"
  shows "conns_of u (active_connections (cleanup_inactive_connections s)) =
     filter (\<lambda>w. \<not> expired s u w) (conns_of u (active_connections s))"
  unfolding cleanup_inactive_connections_def fold_disconnect_conns
  by (simp add: in_inactive_connections [OF assms])

lemma fold_disconnect_sessions_irrelevant:
  "active_connections s = active_connections t \<Longrightarrow> connection_metadata s = connection_metadata t \<Longrightarrow>
   active_connections (fold (\<lambda>(ws, uid) st. disconnect uid (Some ws) st) ps s) =
     active_connections (fold (\<lambda>(ws, uid) st. disconnect uid (Some ws) st) ps t)
   \<and> connection_metadata (fold (\<lambda>(ws, uid) st. disconnect uid (Some ws) st) ps s) =
     connection_metadata (fold (\<lambda>(ws, uid) st. disconnect uid (Some ws) st) ps t)"
proof (induction ps arbitrary: s t)
  case Nil
  then show ?case by simp
next
  case (Cons p ps)
  obtain ws uid where p: "p = (ws, uid)" by (cases p)
  have "active_connections (disconnect uid (Some ws) s) = active_connections (disconnect uid (Some ws) t)"
    "connection_metadata (disconnect uid (Some ws) s) = connection_metadata (disconnect uid (Some ws) t)"
    using Cons.prems by (simp_all add: disconnect_active_Some disconnect_metadata_Some Let_def)
  from Cons.IH [OF this] show ?case by (simp add: p)
qed

lemma cleanup_ignores_sessions:
  "active_connections (cleanup_inactive_connections (s\<lparr>user_sessions := us\<rparr>)) =
     active_connections (cleanup_inactive_connections s)
   \<and> connection_metadata (cleanup_inactive_connections (s\<lparr>user_sessions := us\<rparr>)) =
     connection_metadata (cleanup_inactive_connections s)"
proof -
  have "inactive_connections (s\<lparr>user_sessions := us\<rparr>) = inactive_connections s"
    by (simp add: inactive_connections_def)
  then show ?thesis
    unfolding cleanup_inactive_connections_def
    using fold_disconnect_sessions_irrelevant [of "s\<lparr>user_sessions := us\<rparr>" s "inactive_connections s"]
    by simp
qed


text \<open>
  Claim C4, as the code has it. \<^verbatim>\<open>cleanup_inactive_connections\<close> takes no threshold:
  the threshold is the constant 3600 seconds. In a well-formed registry the sweep removes
  from the metadata table exactly the connections established more than one hour before
  the sweep, and from each user's set exactly the sockets that the table records for that
  user with such an age; connections of age at most one hour stay. What the sessions
  hold, the time of last activity included, has no influence on which connections are
  removed.
\<close>

theorem sweep_removes_connections_older_than_one_hour:
  assumes "wf s"
  shows "connection_metadata (cleanup_inactive_connections s) =
           filter (\<lambda>(ws, md). clock s - meta_connected_at md \<le> one_hour) (connection_metadata s)
     \<and> (\<forall>u. conns_of u (active_connections (cleanup_inactive_connections s)) =
              filter (\<lambda>w. \<not> expired s u w) (conns_of u (active_connections s)))
     \<and> (\<forall>us. active_connections (cleanup_inactive_connections (s\<lparr>user_sessions := us\<rparr>)) =
                 active_connections (cleanup_inactive_connections s)
               \<and> connection_metadata (cleanup_inactive_connections (s\<lparr>user_sessions := us\<rparr>)) =
                 connection_metadata (cleanup_inactive_connections s))"
proof -
  from assms have d: "distinct (map fst (connection_metadata s))"
    by (simp add: wf_def)
  show ?thesis
    using cleanup_metadata [OF d] cleanup_conns [OF d] cleanup_ignores_sessions [where s = s]
    by blast
qed

lemma wf_aged: "wf aged"
  by (simp add: wf_def aged_def)

theorem sweep_removes_connections_older_than_one_hour_witness:
  "wf aged
   \<and> map fst (connection_metadata aged) = [2, 3]
   \<and> map fst (connection_metadata (cleanup_inactive_connections aged)) = [3]
   \<and> conns_of 5 (active_connections aged) = [2, 3]
   \<and> conns_of 5 (active_connections (cleanup_inactive_connections aged)) = [3]"
proof -
  have "expired aged 5 2" "\<not> expired aged 5 3" "conns_of 5 (active_connections aged) = [2, 3]"
    by (simp_all add: expired_def aged_def one_hour_def conns_of_def)
  moreover have "filter (\<lambda>(ws, md). clock aged - meta_connected_at md \<le> one_hour) (connection_metadata aged)
      = [(3, \<lparr> meta_user_id = 5, meta_connected_at = 7200000000, meta_session_id = 1,
                meta_session_data = [] \<rparr>)]"
    by (simp add: aged_def one_hour_def)
  moreover have "map fst (connection_metadata aged) = [2, 3]"
    by (simp add: aged_def)
  ultimately show ?thesis
    using sweep_removes_connections_older_than_one_hour [OF wf_aged] wf_aged by simp
qed

text \<open>
  Claim C4 as stated fails: it lets the caller choose the threshold and says that with
  threshold 0 every registered connection is removed. The code's sweep has no such
  parameter. Ten seconds after user 5 connected, the connection has a positive age and
  the sweep changes nothing.
\<close>

theorem sweep_keeps_connection_of_positive_age:
  "get_user_connection_count 5 (run [Connect 2 5 None, Advance 10000000] init) = 1
   \<and> map (\<lambda>(ws, md). clock (run [Connect 2 5 None, Advance 10000000] init) - meta_connected_at md)
         (connection_metadata (run [Connect 2 5 None, Advance 10000000] init)) = [10000000]
   \<and> cleanup_inactive_connections (run [Connect 2 5 None, Advance 10000000] init) =
       run [Connect 2 5 None, Advance 10000000] init"
proof -
  let ?s = "run [Connect 2 5 None, Advance 10000000] init"
  have s: "?s = (connect 2 5 None init)\<lparr>clock := 10000000\<rparr>"
    by (simp add: run_def connect_on_init)
  have "inactive_connections ?s = []"
    by (simp add: s connect_on_init inactive_connections_def one_hour_def)
  then have "cleanup_inactive_connections ?s = ?s"
    by (simp add: cleanup_inactive_connections_def)
  moreover have "get_user_connection_count 5 ?s = 1"
    by (simp add: s connect_on_init get_user_connection_count_def conns_of_def)
  moreover have "map (\<lambda>(ws, md). clock ?s - meta_connected_at md) (connection_metadata ?s) = [10000000]"
    by (simp add: s connect_on_init)
  ultimately show ?thesis by simp
qed

subsection \<open>C8: the fields of outbound messages\<close>

lemma fold_send_all_stamped:
  "\<exists>new. delivered (fold (\<lambda>m st. snd (snd (send_to_user uid (f m) st))) ms s) = delivered s @ new \<and>
         set (map snd new) \<subseteq> (\<lambda>m. stamp (clock s) (f m)) ` set ms"
proof (induction ms arbitrary: s)
  case Nil
  then show ?case by simp
next
  case (Cons m ms)
  let ?s1 = "snd (snd (send_to_user uid (f m) s))"
  obtain acc where acc: "delivered ?s1 = delivered s @ map (\<lambda>w. (w, stamp (clock s) (f m))) acc"
    using send_to_user_delivered [of uid s "f m"] by blast
  from Cons.IH [of ?s1] obtain new where new:
    "delivered (fold (\<lambda>m st. snd (snd (send_to_user uid (f m) st))) ms ?s1) = delivered ?s1 @ new"
    "set (map snd new) \<subseteq> (\<lambda>m. stamp (clock s) (f m)) ` set ms"
    by (auto simp: mgr_simps)
  let ?new = "map (\<lambda>w. (w, stamp (clock s) (f m))) acc @ new"
  have "delivered (fold (\<lambda>m st. snd (snd (send_to_user uid (f m) st))) (m # ms) s) = delivered s @ ?new"
    using new(1) acc by simp
  moreover have "set (map snd ?new) \<subseteq> (\<lambda>m. stamp (clock s) (f m)) ` set (m # ms)"
    using new(2) by auto
  ultimately show ?case by blast
qed

lemma send_offline_messages_all_stamped:
  "\<exists>new. delivered (send_offline_messages uid s) = delivered s @ new \<and>
         set (map snd new) \<subseteq> (\<lambda>m. stamp (clock s) (offline_wrapper m)) ` set (queued uid s)"
proof (cases "offline_messages s uid")
  case None
  then have "delivered (send_offline_messages uid s) = delivered s @ [] \<and>
     set (map snd []) \<subseteq> (\<lambda>m. stamp (clock s) (offline_wrapper m)) ` set (queued uid s)"
    by (simp add: send_offline_messages_def)
  then show ?thesis by blast
next
  case (Some q)
  then show ?thesis
    using fold_send_all_stamped [of uid offline_wrapper q s]
    by (simp add: send_offline_messages_def Let_def queued_def)
qed

lemma broadcast_to_all_delivered:
  "\<exists>acc. delivered (snd (broadcast_to_all msg ex s)) = delivered s @ map (\<lambda>w. (w, stamp (clock s) msg)) acc"
  using broadcast_users_delivered [of "length (active_connections s)" ex "stamp (clock s) msg"
        "map fst (active_connections s)" s]
  by (simp add: broadcast_to_all_def Let_def)

lemma send_to_user_delivered_some:
  "\<exists>acc. delivered (snd (snd (send_to_user uid msg s))) = delivered s @ map (\<lambda>w. (w, stamp (clock s) msg)) acc"
  using send_to_user_delivered [of uid s msg] by blast

lemma send_system_notification_delivered:
  "\<exists>acc. delivered (send_system_notification text uo s) =
          delivered s @ map (\<lambda>w. (w, stamp (clock s) (system_notification text (clock s)))) acc"
  by (simp add: send_system_notification_def Let_def send_to_user_delivered_some broadcast_to_all_delivered)

lemma handle_ping_delivered:
  "delivered (handle_ping ws data s) = delivered s \<or>
   delivered (handle_ping ws data s) = delivered s @ [(ws, pong (clock s))]"
proof -
  obtain e s1 where e: "send_to_connection ws (pong (clock s)) s = (e, s1)" by fastforce
  then show ?thesis
    using send_to_connection_fields(7) [OF e] by (simp add: handle_ping_def)
qed

lemma builders_well_shaped:
  "well_shaped (stamp t (offline_wrapper m))"
  "well_shaped (stamp t (system_notification text t'))"
  "well_shaped (stamp t (ai_response response context t'))"
  "well_shaped (stamp t (task_notification task_data t'))"
  "well_shaped (stamp t (calendar_reminder event_data t'))"
  by (simp_all add: well_shaped_def map_of_stamp offline_wrapper_def system_notification_def
      ai_response_def task_notification_def calendar_reminder_def)

text \<open>
  Claim C8, as the code has it. The messages the manager builds and sends through
  \<^verbatim>\<open>send_to_user\<close> or \<^verbatim>\<open>broadcast_to_all\<close> (the replayed \<^verbatim>\<open>offline_message\<close>,
  \<^verbatim>\<open>system_notification\<close>, \<^verbatim>\<open>ai_response\<close>, \<^verbatim>\<open>task_notification\<close>,
  \<^verbatim>\<open>calendar_reminder\<close>) go out stamped and have all three top-level fields. The
  \<^verbatim>\<open>pong\<close> reply has \<^verbatim>\<open>type\<close> and \<^verbatim>\<open>timestamp\<close> and no \<^verbatim>\<open>data\<close>; the
  \<^verbatim>\<open>connection_confirmed\<close> message has \<^verbatim>\<open>type\<close> and \<^verbatim>\<open>data\<close>, its time inside
  \<^verbatim>\<open>data\<close>, and no top-level \<^verbatim>\<open>timestamp\<close>.
\<close>

theorem outbound_message_fields:
  "well_shaped (stamp t (offline_wrapper m))
   \<and> well_shaped (stamp t (system_notification text t'))
   \<and> well_shaped (stamp t (ai_response response context t'))
   \<and> well_shaped (stamp t (task_notification task_data t'))
   \<and> well_shaped (stamp t (calendar_reminder event_data t'))
   \<and> (\<exists>new. delivered (send_offline_messages uid s) = delivered s @ new \<and>
          set (map snd new) \<subseteq> (\<lambda>m. stamp (clock s) (offline_wrapper m)) ` set (queued uid s))
   \<and> (\<exists>acc. delivered (send_system_notification text uo s) =
          delivered s @ map (\<lambda>w. (w, stamp (clock s) (system_notification text (clock s)))) acc)
   \<and> (\<exists>acc. delivered (send_ai_response uid response context s) =
          delivered s @ map (\<lambda>w. (w, stamp (clock s) (ai_response response context (clock s)))) acc)
   \<and> (\<exists>acc. delivered (send_task_notification uid task_data s) =
          delivered s @ map (\<lambda>w. (w, stamp (clock s) (task_notification task_data (clock s)))) acc)
   \<and> (\<exists>acc. delivered (send_calendar_reminder uid event_data s) =
          delivered s @ map (\<lambda>w. (w, stamp (clock s) (calendar_reminder event_data (clock s)))) acc)
   \<and> (delivered (handle_ping ws data s) = delivered s \<or>
       delivered (handle_ping ws data s) = delivered s @ [(ws, pong (clock s))])
   \<and> map_of (pong t) ''type'' = Some (JStr ''pong'')
   \<and> map_of (pong t) ''timestamp'' = Some (JTime t)
   \<and> map_of (pong t) ''data'' = None
   \<and> map_of (connection_confirmed u sid t) ''type'' = Some (JStr ''connection_confirmed'')
   \<and> map_of (connection_confirmed u sid t) ''data'' =
       Some (JDict [(''user_id'', JInt u), (''session_id'', JUuid sid), (''timestamp'', JTime t)])
   \<and> map_of (connection_confirmed u sid t) ''timestamp'' = None"
proof -
  have "map_of (pong t) ''type'' = Some (JStr ''pong'')" "map_of (pong t) ''timestamp'' = Some (JTime t)"
    "map_of (pong t) ''data'' = None"
    by (simp_all add: pong_def)
  moreover have "map_of (connection_confirmed u sid t) ''type'' = Some (JStr ''connection_confirmed'')"
    "map_of (connection_confirmed u sid t) ''data'' =
       Some (JDict [(''user_id'', JInt u), (''session_id'', JUuid sid), (''timestamp'', JTime t)])"
    "map_of (connection_confirmed u sid t) ''timestamp'' = None"
    by (simp_all add: connection_confirmed_def)
  moreover note builders_well_shaped [of t] send_offline_messages_all_stamped [of uid s]
    send_system_notification_delivered [of "text" uo s] handle_ping_delivered [of ws data s]
    send_to_user_delivered_some [of uid "ai_response response context (clock s)" s]
    send_to_user_delivered_some [of uid "task_notification task_data (clock s)" s]
    send_to_user_delivered_some [of uid "calendar_reminder event_data (clock s)" s]
  ultimately show ?thesis
    unfolding send_ai_response_def send_task_notification_def send_calendar_reminder_def
    by blast
qed

theorem outbound_message_fields_witness:
  "well_shaped (stamp 7 (offline_wrapper hello))
   \<and> well_shaped (stamp 7 (task_notification [(''id'', JInt 1)] 7))
   \<and> map_of (pong 7) ''data'' = None
   \<and> map_of (connection_confirmed 5 0 7) ''timestamp'' = None"
  using outbound_message_fields [of 7 hello "''x''" 7 "''y''" None "[(''id'', JInt 1)]" "[]" 5 init None 2 "[]" 5 0]
  by simp

text \<open>
  Claim C8 as stated fails: user 5 connects on socket 2 and sends a ping. The socket
  receives the confirmation and the pong; neither has the three fields.
\<close>

theorem pong_and_confirmation_lack_a_field:
  "delivered (handle_message 2 (Some (JDict [(''type'', JStr ''ping'')])) (connect 2 5 None init)) =
     [(2, connection_confirmed 5 0 0), (2, pong 0)]
   \<and> \<not> well_shaped (connection_confirmed 5 0 0)
   \<and> \<not> well_shaped (pong 0)"
  by (simp add: connect_on_init handle_message_def handle_ping_def send_to_connection_def
      next_outcome_def well_shaped_def pong_def connection_confirmed_def Let_def)

end
